theory Spec2Isabelle
  imports Complex_Main "HOL-Library.AList"
begin

section \<open>The Aurora chat endpoint (api/chat.ts)\<close>

text \<open>
  A shallow embedding of the serverless handler of \<^verbatim>\<open>api/chat.ts\<close>: the in-memory
  search cache, the two predicates that gate a web search, the web-search connector, the
  heuristic responder, the answer generator and the request handler.

  Conventions of the embedding.
  \<^item> A JavaScript string is a \<open>string\<close>: ASCII text as it stands, text outside
    ASCII as its UTF-8 bytes. A keyword of the source is ASCII, and it occurs in a
    JavaScript string exactly when it occurs in the bytes.
  \<^item> \<open>Date.now()\<close> is an \<open>int\<close> (milliseconds) handed to the function that reads it.
  \<^item> The module-level \<open>Map\<close> is an association list in insertion order, as a
    JavaScript \<open>Map\<close> iterates: \<open>set\<close> overwrites an existing key where it stands and
    appends a new key at the end (\<open>AList.update\<close>), \<open>delete\<close> removes the key
    (\<open>AList.delete\<close>), \<open>keys().next().value\<close> is the key of the head.
  \<^item> What a \<open>fetch\<close>, \<open>JSON.parse\<close> or an environment variable yields is input of the
    model: every outcome the code distinguishes is a constructor or a field.
\<close>

subsection \<open>Data model\<close>

record WebSearchResult =
  title :: string
  url :: string
  snippet :: "string option"

text \<open>An optional field of \<open>AuroraAnswer\<close> is \<open>None\<close> where the object leaves it undefined.\<close>

record AuroraAnswer =
  answerText :: string
  confidence :: "real option"
  sources :: "WebSearchResult list option"
  usedSearch :: "bool option"

record cache_entry =
  timestamp :: int
  results :: "WebSearchResult list"

type_synonym search_cache = "(string \<times> cache_entry) list"

text \<open>
  The values a request body, a message or a field of one can be: what \<open>JSON.parse\<close> or
  the platform's body parser produces, and \<open>undefined\<close> for a missing body or property.
  An object is its key-value pairs.
\<close>

datatype jsval =
    JUndefined
  | JNull
  | JBool bool
  | JNum real
  | JStr string
  | JArr "jsval list"
  | JObj "(string \<times> jsval) list"

datatype exn = SyntaxError | TypeError

subsection \<open>Strings\<close>

definition toLowerChar :: "char \<Rightarrow> char" where
  "toLowerChar ch =
     (case map_of (zip ''ABCDEFGHIJKLMNOPQRSTUVWXYZ'' ''abcdefghijklmnopqrstuvwxyz'') ch of
        Some l \<Rightarrow> l
      | None \<Rightarrow> ch)"

text \<open>
  \<open>toLowerCase\<close>. The source reads a lowered string only through \<open>includes\<close> with an
  ASCII keyword and through \<open>trim\<close>, so what matters of it is where ASCII letters stand.
  Besides \<open>A\<close> to \<open>Z\<close>, two characters have a lower case with an ASCII letter, and they
  are mapped as JavaScript maps them: U+212A (Kelvin sign, bytes \<open>E2 84 AA\<close>) to \<open>k\<close>, and
  U+0130 (bytes \<open>C4 B0\<close>) to \<open>i\<close> followed by U+0307 (bytes \<open>CC 87\<close>). Every other character
  outside ASCII has a lower case outside ASCII and is carried as it stands.
\<close>

fun toLowerCase :: "string \<Rightarrow> string" where
  "toLowerCase (a # b # c # cs) =
     (if a = CHR 0xE2 \<and> b = CHR 0x84 \<and> c = CHR 0xAA then CHR ''k'' # toLowerCase cs
      else if a = CHR 0xC4 \<and> b = CHR 0xB0
        then CHR ''i'' # CHR 0xCC # CHR 0x87 # toLowerCase (c # cs)
      else toLowerChar a # toLowerCase (b # c # cs))"
| "toLowerCase [a, b] =
     (if a = CHR 0xC4 \<and> b = CHR 0xB0 then [CHR ''i'', CHR 0xCC, CHR 0x87]
      else toLowerChar a # toLowerCase [b])"
| "toLowerCase [a] = [toLowerChar a]"
| "toLowerCase [] = []"

fun startsWith :: "string \<Rightarrow> string \<Rightarrow> bool" where
  "startsWith s [] = True"
| "startsWith [] (t # ts) = False"
| "startsWith (c # cs) (t # ts) = (c = t \<and> startsWith cs ts)"

text \<open>\<open>includesStr s t\<close> is \<open>s.includes(t)\<close>: \<open>t\<close> occurs in \<open>s\<close> as a contiguous run.\<close>

fun includesStr :: "string \<Rightarrow> string \<Rightarrow> bool" where
  "includesStr [] t = (t = [])"
| "includesStr (c # cs) t = (startsWith (c # cs) t \<or> includesStr cs t)"

text \<open>
  The white space and line terminators \<open>trim\<close> strips, as UTF-8: U+0009 to U+000D,
  U+0020, U+00A0, U+1680, U+2000 to U+200A, U+2028, U+2029, U+202F, U+205F, U+3000 and
  U+FEFF.
\<close>

definition whiteSpaces :: "string list" where
  "whiteSpaces =
     [[CHR 0x09], [CHR 0x0A], [CHR 0x0B], [CHR 0x0C], [CHR 0x0D], [CHR 0x20],
      [CHR 0xC2, CHR 0xA0], [CHR 0xE1, CHR 0x9A, CHR 0x80],
      [CHR 0xE2, CHR 0x80, CHR 0x80], [CHR 0xE2, CHR 0x80, CHR 0x81],
      [CHR 0xE2, CHR 0x80, CHR 0x82], [CHR 0xE2, CHR 0x80, CHR 0x83],
      [CHR 0xE2, CHR 0x80, CHR 0x84], [CHR 0xE2, CHR 0x80, CHR 0x85],
      [CHR 0xE2, CHR 0x80, CHR 0x86], [CHR 0xE2, CHR 0x80, CHR 0x87],
      [CHR 0xE2, CHR 0x80, CHR 0x88], [CHR 0xE2, CHR 0x80, CHR 0x89],
      [CHR 0xE2, CHR 0x80, CHR 0x8A], [CHR 0xE2, CHR 0x80, CHR 0xA8],
      [CHR 0xE2, CHR 0x80, CHR 0xA9], [CHR 0xE2, CHR 0x80, CHR 0xAF],
      [CHR 0xE2, CHR 0x81, CHR 0x9F], [CHR 0xE3, CHR 0x80, CHR 0x80],
      [CHR 0xEF, CHR 0xBB, CHR 0xBF]]"

text \<open>
  \<open>stripLeading ws s\<close> removes from the front of \<open>s\<close> every run that is one of \<open>ws\<close>
  (runs of one to three bytes). \<open>trim\<close> strips the front, and the end by the same
  function on the reversed string with the reversed runs: a white-space character of
  two or three bytes begins with a lead byte, so a run at the end of a string is that
  character.
\<close>

fun stripLeading :: "string list \<Rightarrow> string \<Rightarrow> string" where
  "stripLeading ws (a # b # c # cs) =
     (if [a] \<in> set ws then stripLeading ws (b # c # cs)
      else if [a, b] \<in> set ws then stripLeading ws (c # cs)
      else if [a, b, c] \<in> set ws then stripLeading ws cs
      else a # b # c # cs)"
| "stripLeading ws [a, b] =
     (if [a] \<in> set ws then stripLeading ws [b]
      else if [a, b] \<in> set ws then []
      else [a, b])"
| "stripLeading ws [a] = (if [a] \<in> set ws then [] else [a])"
| "stripLeading ws [] = []"

definition trim :: "string \<Rightarrow> string" where
  "trim s = rev (stripLeading (map rev whiteSpaces) (rev (stripLeading whiteSpaces s)))"

subsection \<open>The search cache\<close>

definition SEARCH_TTL_MS :: int where
  "SEARCH_TTL_MS = 5 * 60 * 1000"

definition SEARCH_CACHE_LIMIT :: nat where
  "SEARCH_CACHE_LIMIT = 50"

text \<open>
  \<open>getCachedSearch\<close> returns the result (\<open>None\<close> for \<open>null\<close>) and the store it leaves.
  A stored entry is an object, so \<open>!entry\<close> holds exactly when the key is absent.
\<close>

definition getCachedSearch ::
  "int \<Rightarrow> string \<Rightarrow> search_cache \<Rightarrow> WebSearchResult list option \<times> search_cache" where
  "getCachedSearch now query c =
     (case map_of c query of
        None \<Rightarrow> (None, c)
      | Some entry \<Rightarrow>
          if now - timestamp entry > SEARCH_TTL_MS
          then (None, AList.delete query c)
          else (Some (results entry), c))"

text \<open>
  \<open>firstKey\<close> is \<open>searchCache.keys().next().value\<close>: \<open>None\<close> (undefined) on an empty
  map. The test \<open>if (firstKey)\<close> is a truthiness test, so it fails on \<open>undefined\<close> and on
  the empty string.
\<close>

definition firstKey :: "search_cache \<Rightarrow> string option" where
  "firstKey c = (case c of [] \<Rightarrow> None | (k, _) # _ \<Rightarrow> Some k)"

definition evictOldest :: "search_cache \<Rightarrow> search_cache" where
  "evictOldest c =
     (case firstKey c of
        None \<Rightarrow> c
      | Some k \<Rightarrow> if k \<noteq> [] then AList.delete k c else c)"

definition setCachedSearch ::
  "int \<Rightarrow> string \<Rightarrow> WebSearchResult list \<Rightarrow> search_cache \<Rightarrow> search_cache" where
  "setCachedSearch now query rs c =
     (if length rs = 0 then c
      else AList.update query \<lparr>timestamp = now, results = rs\<rparr>
             (if length c \<ge> SEARCH_CACHE_LIMIT then evictOldest c else c))"

subsection \<open>The safety filter\<close>

definition blocked :: "string list" where
  "blocked =
     [''password'', ''passcode'', ''social security'', ''ssn'', ''credit card'',
      ''card number'', ''cvv'', ''pin code'']"

definition isSearchSafe :: "string \<Rightarrow> bool" where
  "isSearchSafe question =
     (let q = toLowerCase question in \<not> list_ex (\<lambda>t. includesStr q t) blocked)"

definition externalKeywords :: "string list" where
  "externalKeywords =
     [''news'', ''latest'', ''today'', ''current'', ''rate'', ''inflation'', ''recession'',
      ''market'', ''economy'', ''stock'', ''crypto'', ''yield'', ''tax law'', ''regulation'',
      ''what is'', ''who is'', ''define'', ''definition'', ''history of'']"

definition shouldUseWebSearch :: "string \<Rightarrow> bool" where
  "shouldUseWebSearch question =
     (let q = toLowerCase question in
      if trim q = [] then False
      else list_ex (\<lambda>keyword. includesStr q keyword) externalKeywords)"

subsection \<open>The web-search connector\<close>

text \<open>
  A page of the provider's reply, each field \<open>None\<close> where it is not a string. What the
  \<open>try\<close> of \<open>performWebSearch\<close> comes to: building the URL throws
  (\<open>encodeURIComponent\<close>, before any request is sent), the fetch throws, the response is
  not ok, reading the body throws (\<open>response.json()\<close>, or a property read on a body that
  is not of the expected shape), or the pages arrive.
\<close>

record bing_page =
  pageName :: "string option"
  pageUrl :: "string option"
  pageSnippet :: "string option"
  pageDescription :: "string option"

datatype bing_reply =
    UrlThrows
  | FetchThrows
  | NotOk
  | BodyThrows
  | WebPages "bing_page list"

text \<open>
  The shared state of the process: the cache, and the number of requests sent to the
  search provider so far (what a test reads off a mocked connector).
\<close>

record state =
  searchCache :: search_cache
  searchCalls :: nat

text \<open>An environment variable is set when it is defined and not the empty string.\<close>

definition isSet :: "string option \<Rightarrow> bool" where
  "isSet v = (case v of None \<Rightarrow> False | Some s \<Rightarrow> s \<noteq> [])"

subsection \<open>The heuristic responder\<close>

text \<open>The six paragraphs; the en dash of the source is its three UTF-8 bytes.\<close>

definition genericText :: string where
  "genericText =
     ''Here''
     @ [CHR 0x27]
     @ ''s a high-level perspective on your finances. I can help you break this ''
     @ ''down by accounts, categories, or time horizon if you like.''"

definition budgetText :: string where
  "budgetText =
     ''Most people get the largest leverage by looking at their top 2''
     @ [CHR 0xE2, CHR 0x80, CHR 0x93]
     @ ''3 variable categories: often food, transport, and subscriptions. If you ''
     @ ''trim those by 10''
     @ [CHR 0xE2, CHR 0x80, CHR 0x93]
     @ ''15% while keeping rent and essentials stable, your budget usually feels ''
     @ ''better without feeling restrictive.''"

definition savingsText :: string where
  "savingsText =
     ''A common pattern is to target a savings rate in the 15''
     @ [CHR 0xE2, CHR 0x80, CHR 0x93]
     @ ''25% range of net income, then adjust up or down based on stability and ''
     @ ''goals. We can look at your fixed costs and recent spending to see what ''
     @ ''level is realistic for you.''"

definition investText :: string where
  "investText =
     ''Investing typically starts with building an emergency buffer, then ''
     @ ''allocating surplus into diversified, low-cost investments like ''
     @ ''broad-market ETFs. From there, you can decide how much risk to take ''
     @ ''based on your time horizon and volatility comfort.''"

definition runwayText :: string where
  "runwayText =
     ''Runway is essentially your liquid assets divided by your average ''
     @ ''monthly burn. If we keep your burn stable and increase savings, that ''
     @ ''runway extends. Small, persistent changes in discretionary categories ''
     @ ''compound into meaningful extra months.''"

definition cryptoText :: string where
  "cryptoText =
     ''Crypto should usually be treated as a high-volatility sleeve in a ''
     @ ''broader plan. Many approaches keep it to a small percentage of total ''
     @ ''net worth, rebalanced occasionally, rather than relying on it for ''
     @ ''near-term goals.''"

definition heuristicText :: "string \<Rightarrow> string" where
  "heuristicText lower =
     (if includesStr lower ''budget'' \<or> includesStr lower ''spend'' then budgetText
      else if includesStr lower ''save'' \<or> includesStr lower ''savings'' then savingsText
      else if includesStr lower ''invest'' \<or> includesStr lower ''stock'' \<or> includesStr lower ''etf''
        then investText
      else if includesStr lower ''runway'' \<or> includesStr lower ''forecast'' then runwayText
      else if includesStr lower ''crypto'' then cryptoText
      else genericText)"

definition basicHeuristicAnswer :: "string \<Rightarrow> AuroraAnswer" where
  "basicHeuristicAnswer question =
     \<lparr>answerText = heuristicText (toLowerCase question), confidence = Some 0.78,
      sources = None, usedSearch = None\<rparr>"

subsection \<open>JavaScript values\<close>

text \<open>\<open>!v\<close> is \<open>\<not> truthy v\<close>. A number of a JSON text is never \<open>NaN\<close>.\<close>

fun truthy :: "jsval \<Rightarrow> bool" where
  "truthy JUndefined = False"
| "truthy JNull = False"
| "truthy (JBool b) = b"
| "truthy (JNum n) = (n \<noteq> 0)"
| "truthy (JStr s) = (s \<noteq> [])"
| "truthy (JArr xs) = True"
| "truthy (JObj kvs) = True"

fun nullish :: "jsval \<Rightarrow> bool" where
  "nullish JUndefined = True"
| "nullish JNull = True"
| "nullish v = False"

text \<open>
  \<open>getProp v name\<close> reads \<open>v.name\<close> off a value that is neither \<open>null\<close> nor
  \<open>undefined\<close>, for the names the handler reads (\<open>messages\<close>, \<open>userId\<close>, \<open>role\<close>,
  \<open>text\<close>): the field of an object, \<open>undefined\<close> on anything else. \<open>readProp\<close> is the
  plain read, a \<open>TypeError\<close> on \<open>null\<close> and \<open>undefined\<close>; \<open>optProp\<close> is \<open>v?.name\<close>;
  \<open>orElse a b\<close> is \<open>a ?? b\<close>.
\<close>

fun getProp :: "jsval \<Rightarrow> string \<Rightarrow> jsval" where
  "getProp (JObj kvs) name = (case map_of kvs name of Some v \<Rightarrow> v | None \<Rightarrow> JUndefined)"
| "getProp v name = JUndefined"

definition readProp :: "jsval \<Rightarrow> string \<Rightarrow> exn + jsval" where
  "readProp v name = (if nullish v then Inl TypeError else Inr (getProp v name))"

definition optProp :: "jsval \<Rightarrow> string \<Rightarrow> jsval" where
  "optProp v name = (if nullish v then JUndefined else getProp v name)"

definition orElse :: "jsval \<Rightarrow> jsval \<Rightarrow> jsval" where
  "orElse a b = (if nullish a then b else a)"

text \<open>\<open>xs[xs.length - 1]\<close> and \<open>xs.slice(-1)[0]\<close>: \<open>undefined\<close> on an empty array.\<close>

definition lastElem :: "jsval list \<Rightarrow> jsval" where
  "lastElem xs = (if xs = [] then JUndefined else last xs)"

subsection \<open>The environment of a request\<close>

text \<open>
  What the five connectors other than the web search hand to the handler. Each of them
  catches its own failures and resolves to a value, so they are read here by what they
  return.
\<close>

record upstream_data =
  userProfile :: jsval
  fxRates :: "(string \<times> real) list"
  stockQuotes :: "(string \<times> jsval) list"
  cryptoPrices :: "(string \<times> real) list"
  transactions :: jsval

record gen_context =
  ctxQuestion :: string
  ctxMessages :: "jsval list"
  ctxUpstream :: upstream_data
  ctxWebResults :: "WebSearchResult list"

text \<open>
  What the call of the language model comes to. The knowledge snippets and the prompt
  are functions of the context, so the outcome is read as a function of the context.
  The prompt is assembled before the \<open>try\<close> of \<open>generateAuroraAnswer\<close>, so a failure
  there leaves the function; inside the \<open>try\<close> the fetch throws, the response is not ok,
  reading the reply throws (\<open>res.json()\<close>, a reply of another shape, or a content that is
  neither nullish nor a string, on which \<open>trim\<close> is no function), or
  \<open>data.choices?.[0]?.message?.content\<close> is read: \<open>None\<close> for \<open>undefined\<close> or \<open>null\<close>,
  the string otherwise.
\<close>

datatype llm_reply =
    PromptThrows
  | LlmFetchThrows
  | LlmNotOk
  | LlmBodyThrows
  | LlmContent "string option"

text \<open>
  The environment: the configuration read from \<open>process.env\<close>, the search provider
  (what a search comes to after \<open>n\<close> requests sent, for a query), the language model, the other
  connectors (by user id and question), and the two readings of \<open>Date.now()\<close> a lookup
  makes, in \<open>getCachedSearch\<close> and in \<open>setCachedSearch\<close>. Every upstream call settles
  (it resolves or rejects), and a request runs from its first step to its response with
  no other request in between.
\<close>

record env =
  BING_SEARCH_ENDPOINT :: "string option"
  BING_SEARCH_KEY :: "string option"
  OPENAI_API_KEY :: "string option"
  bing :: "nat \<Rightarrow> string \<Rightarrow> bing_reply"
  openai :: "gen_context \<Rightarrow> llm_reply"
  upstream :: "jsval \<Rightarrow> string \<Rightarrow> upstream_data"
  nowAtLookup :: int
  nowAtStore :: int

subsection \<open>Web search\<close>

definition toResult :: "bing_page \<Rightarrow> WebSearchResult option" where
  "toResult page =
     (case pageUrl page of
        None \<Rightarrow> None
      | Some u \<Rightarrow>
          Some \<lparr>title = (case pageName page of Some n \<Rightarrow> n | None \<Rightarrow> u),
                url = u,
                snippet = (case pageSnippet page of
                             Some s \<Rightarrow> Some s
                           | None \<Rightarrow> pageDescription page)\<rparr>)"

definition performWebSearch :: "env \<Rightarrow> string \<Rightarrow> state \<Rightarrow> WebSearchResult list \<times> state" where
  "performWebSearch e query st =
     (if \<not> isSet (BING_SEARCH_ENDPOINT e) \<or> \<not> isSet (BING_SEARCH_KEY e) then ([], st)
      else
        let st' = st\<lparr>searchCalls := Suc (searchCalls st)\<rparr> in
        case bing e (searchCalls st) query of
          UrlThrows \<Rightarrow> ([], st)
        | FetchThrows \<Rightarrow> ([], st')
        | NotOk \<Rightarrow> ([], st')
        | BodyThrows \<Rightarrow> ([], st')
        | WebPages pages \<Rightarrow> (List.map_filter toResult (take 5 pages), st'))"

text \<open>A cached array is truthy even when empty, so \<open>if (cached)\<close> tests for \<open>null\<close>.\<close>

definition getWebResultsForQuestion ::
  "env \<Rightarrow> string \<Rightarrow> state \<Rightarrow> WebSearchResult list \<times> state" where
  "getWebResultsForQuestion e question st =
     (if \<not> isSet (BING_SEARCH_ENDPOINT e) \<or> \<not> isSet (BING_SEARCH_KEY e) then ([], st)
      else if question = [] \<or> \<not> isSearchSafe question then ([], st)
      else if \<not> shouldUseWebSearch question then ([], st)
      else
        case getCachedSearch (nowAtLookup e) question (searchCache st) of
          (Some cached, c) \<Rightarrow> (cached, st\<lparr>searchCache := c\<rparr>)
        | (None, c) \<Rightarrow>
            let (rs, st') = performWebSearch e question (st\<lparr>searchCache := c\<rparr>) in
            if length rs \<noteq> 0
            then (rs, st'\<lparr>searchCache := setCachedSearch (nowAtStore e) question rs (searchCache st')\<rparr>)
            else (rs, st'))"

subsection \<open>The answer generator\<close>

text \<open>
  A call \<open>basicHeuristicAnswer(v)\<close> with the value an untyped caller holds:
  \<open>(question || '').toLowerCase()\<close> is a \<open>TypeError\<close> on a truthy value that is not a
  string.
\<close>

definition callHeuristic :: "jsval \<Rightarrow> exn + AuroraAnswer" where
  "callHeuristic v =
     (if \<not> truthy v then Inr (basicHeuristicAnswer [])
      else case v of JStr s \<Rightarrow> Inr (basicHeuristicAnswer s) | _ \<Rightarrow> Inl TypeError)"

text \<open>\<open>messages.filter((m) => m.role === 'user')\<close>, which reads \<open>role\<close> off every message.\<close>

fun filterUsers :: "jsval list \<Rightarrow> exn + jsval list" where
  "filterUsers [] = Inr []"
| "filterUsers (m # ms) =
     (case readProp m ''role'' of
        Inl x \<Rightarrow> Inl x
      | Inr r \<Rightarrow>
          (case filterUsers ms of
             Inl x \<Rightarrow> Inl x
           | Inr us \<Rightarrow> Inr (if r = JStr ''user'' then m # us else us)))"

definition defaultQuestion :: string where
  "defaultQuestion = ''Explain my finances in simple terms.''"

text \<open>
  \<open>context.question || context.messages.filter(...).slice(-1)[0]?.text || '...'\<close>: the
  filter runs only when the question is the empty string.
\<close>

definition effectiveQuestion :: "gen_context \<Rightarrow> exn + jsval" where
  "effectiveQuestion ctx =
     (if ctxQuestion ctx \<noteq> [] then Inr (JStr (ctxQuestion ctx))
      else
        case filterUsers (ctxMessages ctx) of
          Inl x \<Rightarrow> Inl x
        | Inr us \<Rightarrow>
            let t = optProp (lastElem us) ''text'' in
            Inr (if truthy t then t else JStr defaultQuestion))"

definition generateAuroraAnswer :: "env \<Rightarrow> gen_context \<Rightarrow> exn + AuroraAnswer" where
  "generateAuroraAnswer e ctx =
     (case effectiveQuestion ctx of
        Inl x \<Rightarrow> Inl x
      | Inr question \<Rightarrow>
          if \<not> isSet (OPENAI_API_KEY e) then callHeuristic question
          else
            let hasWebResults = (length (ctxWebResults ctx) > 0) in
            case openai e ctx of
              PromptThrows \<Rightarrow> Inl TypeError
            | LlmFetchThrows \<Rightarrow> callHeuristic question
            | LlmNotOk \<Rightarrow> callHeuristic question
            | LlmBodyThrows \<Rightarrow> callHeuristic question
            | LlmContent None \<Rightarrow> callHeuristic question
            | LlmContent (Some s) \<Rightarrow>
                let content = trim s in
                if content = [] then callHeuristic question
                else Inr \<lparr>answerText = content, confidence = Some 0.92,
                          sources = (if hasWebResults then Some (take 4 (ctxWebResults ctx))
                                     else None),
                          usedSearch = Some hasWebResults\<rparr>)"

subsection \<open>The request handler\<close>

text \<open>
  A request: its method, its body, and what \<open>JSON.parse\<close> makes of the body when the
  body is a string (\<open>None\<close> where it throws); \<open>parsedBody\<close> is read in no other case.
\<close>

record request =
  httpMethod :: string
  body :: jsval
  parsedBody :: "jsval option"

record live_data =
  fxSymbols :: "string list"
  stocks :: "string list"
  crypto :: "string list"
  transactionCount :: nat

text \<open>The object of a 200 response; \<open>bodyFallback\<close> holds when it carries \<open>fallback: true\<close>.\<close>

record envelope =
  bodyText :: string
  bodyConfidence :: real
  bodyFallback :: bool
  bodySources :: "WebSearchResult list"
  bodyUsedSearch :: bool
  usedLiveData :: "live_data option"

datatype json_body = ErrorBody string | AnswerBody envelope

record response =
  status :: nat
  headers :: "(string \<times> string) list"
  json :: json_body

definition parseBody :: "request \<Rightarrow> exn + jsval" where
  "parseBody req =
     (case body req of
        JStr s \<Rightarrow> (case parsedBody req of None \<Rightarrow> Inl SyntaxError | Some v \<Rightarrow> Inr v)
      | v \<Rightarrow> Inr v)"

text \<open>
  The messages of a body that passes
  \<open>!body || !Array.isArray(body.messages) || body.messages.length === 0\<close>.
\<close>

definition bodyMessages :: "jsval \<Rightarrow> jsval list option" where
  "bodyMessages b =
     (if \<not> truthy b then None
      else case getProp b ''messages'' of
             JArr ms \<Rightarrow> if length ms = 0 then None else Some ms
           | _ \<Rightarrow> None)"

text \<open>\<open>find((m) => m.role === 'user')\<close> over the reversed messages.\<close>

fun findUser :: "jsval list \<Rightarrow> exn + jsval" where
  "findUser [] = Inr JUndefined"
| "findUser (m # ms) =
     (case readProp m ''role'' of
        Inl x \<Rightarrow> Inl x
      | Inr r \<Rightarrow> if r = JStr ''user'' then Inr m else findUser ms)"

definition extractQuestion :: "jsval list \<Rightarrow> exn + jsval" where
  "extractQuestion msgs =
     (case findUser (rev msgs) of
        Inl x \<Rightarrow> Inl x
      | Inr lastUser \<Rightarrow>
          Inr (orElse (optProp lastUser ''text'')
                 (orElse (optProp (lastElem msgs) ''text'') (JStr []))))"

definition usedLive :: "upstream_data \<Rightarrow> live_data" where
  "usedLive u =
     \<lparr>fxSymbols = map fst (fxRates u), stocks = map fst (stockQuotes u),
      crypto = map fst (cryptoPrices u),
      transactionCount = (case transactions u of JArr ts \<Rightarrow> length ts | _ \<Rightarrow> 0)\<rparr>"

definition successResponse :: "AuroraAnswer \<Rightarrow> upstream_data \<Rightarrow> response" where
  "successResponse answer u =
     \<lparr>status = 200, headers = [],
      json = AnswerBody
        \<lparr>bodyText = answerText answer,
         bodyConfidence = (case confidence answer of Some c \<Rightarrow> c | None \<Rightarrow> 0.9),
         bodyFallback = False,
         bodySources = (case sources answer of Some s \<Rightarrow> s | None \<Rightarrow> []),
         bodyUsedSearch = (case usedSearch answer of Some b \<Rightarrow> b | None \<Rightarrow> False),
         usedLiveData = Some (usedLive u)\<rparr>\<rparr>"

definition fallbackResponse :: response where
  "fallbackResponse =
     (let fallback = basicHeuristicAnswer [] in
      \<lparr>status = 200, headers = [],
       json = AnswerBody
         \<lparr>bodyText = answerText fallback,
          bodyConfidence = (case confidence fallback of Some c \<Rightarrow> c | None \<Rightarrow> 0.7),
          bodyFallback = True,
          bodySources = (case sources fallback of Some s \<Rightarrow> s | None \<Rightarrow> []),
          bodyUsedSearch = (case usedSearch fallback of Some b \<Rightarrow> b | None \<Rightarrow> False),
          usedLiveData = None\<rparr>\<rparr>)"

text \<open>
  The \<open>try\<close> block of the handler: the response it sends, or the exception that leaves
  it, and the state either way. \<open>question.toLowerCase()\<close> is a \<open>TypeError\<close> on a question
  that is not a string.
\<close>

definition tryBlock :: "env \<Rightarrow> request \<Rightarrow> state \<Rightarrow> (exn + response) \<times> state" where
  "tryBlock e req st =
     (case parseBody req of
        Inl x \<Rightarrow> (Inl x, st)
      | Inr b \<Rightarrow>
          (case bodyMessages b of
             None \<Rightarrow>
               (Inr \<lparr>status = 400, headers = [],
                     json = ErrorBody ''Invalid request body: missing messages''\<rparr>, st)
           | Some msgs \<Rightarrow>
               let userId = orElse (getProp b ''userId'') (JStr ''anonymous'') in
               (case extractQuestion msgs of
                  Inl x \<Rightarrow> (Inl x, st)
                | Inr (JStr question) \<Rightarrow>
                    let (webResults, st') = getWebResultsForQuestion e question st;
                        u = upstream e userId question
                    in (case generateAuroraAnswer e
                               \<lparr>ctxQuestion = question, ctxMessages = msgs, ctxUpstream = u,
                                ctxWebResults = webResults\<rparr> of
                          Inl x \<Rightarrow> (Inl x, st')
                        | Inr answer \<Rightarrow> (Inr (successResponse answer u), st'))
                | Inr _ \<Rightarrow> (Inl TypeError, st))))"

definition handler :: "env \<Rightarrow> request \<Rightarrow> state \<Rightarrow> response \<times> state" where
  "handler e req st =
     (if httpMethod req \<noteq> ''POST''
      then (\<lparr>status = 405, headers = [(''Allow'', ''POST'')],
             json = ErrorBody ''Method Not Allowed''\<rparr>, st)
      else case tryBlock e req st of
             (Inr r, st') \<Rightarrow> (r, st')
           | (Inl x, st') \<Rightarrow> (fallbackResponse, st'))"

section \<open>Vocabulary of the properties\<close>

subsection \<open>Questions that reach the provider\<close>

text \<open>
  The tests \<open>getWebResultsForQuestion\<close> makes before it turns to the cache: both
  credentials set, the question not empty, safe, and with a trigger word.
\<close>

definition searchable :: "env \<Rightarrow> string \<Rightarrow> bool" where
  "searchable e q \<longleftrightarrow>
     isSet (BING_SEARCH_ENDPOINT e) \<and> isSet (BING_SEARCH_KEY e) \<and> q \<noteq> []
     \<and> isSearchSafe q \<and> shouldUseWebSearch q"

subsection \<open>The stores the cache can hold\<close>

text \<open>
  The module's \<open>Map\<close> starts empty, and one function touches it:
  \<open>getWebResultsForQuestion\<close> calls \<open>getCachedSearch\<close> and, when the search returned
  results, \<open>setCachedSearch\<close>, both with a question that passed its tests. It awaits the
  search between the two calls, so the calls of requests in flight may interleave;
  \<open>reachable_cache\<close> holds of every store that some sequence of such calls leaves.
\<close>

inductive reachable_cache :: "search_cache \<Rightarrow> bool" where
  fresh: "reachable_cache []"
| lookup: "reachable_cache c \<Longrightarrow> searchable e q \<Longrightarrow>
           reachable_cache (snd (getCachedSearch now q c))"
| store: "reachable_cache c \<Longrightarrow> searchable e q \<Longrightarrow> length rs \<noteq> 0 \<Longrightarrow>
          reachable_cache (setCachedSearch now q rs c)"

definition has_results :: "string \<times> cache_entry \<Rightarrow> bool" where
  "has_results p \<longleftrightarrow> results (snd p) \<noteq> []"

definition entry_ok :: "string \<times> cache_entry \<Rightarrow> bool" where
  "entry_ok p \<longleftrightarrow> fst p \<noteq> [] \<and> results (snd p) \<noteq> []"

definition cache_inv :: "search_cache \<Rightarrow> bool" where
  "cache_inv c \<longleftrightarrow>
     distinct (map fst c) \<and> length c \<le> SEARCH_CACHE_LIMIT \<and> list_all entry_ok c"

definition sample_result :: WebSearchResult where
  "sample_result = \<lparr>title = ''Rates today'', url = ''https://example.org/rates'', snippet = None\<rparr>"

definition sample_entry :: cache_entry where
  "sample_entry = \<lparr>timestamp = 0, results = [sample_result]\<rparr>"

text \<open>Fifty questions with a trigger word, and the store that fifty puts of them leave.\<close>

definition sample_keys :: "string list" where
  "sample_keys =
     ''news old''
     # concat (map (\<lambda>a. map (\<lambda>b. ''news '' @ [a, b]) ''abcdefg'') ''abcdefg'')"

definition full_cache :: search_cache where
  "full_cache = map (\<lambda>k. (k, sample_entry)) sample_keys"

subsection \<open>Keywords without a k\<close>

text \<open>
  The letters of the blocklist terms and of \<open>budget\<close>: lower-case ASCII letters other than
  \<open>k\<close>, and the space. \<open>plain c\<close> holds of a byte whose lower case is one of them.
\<close>

definition plainLetters :: string where
  "plainLetters = ''abcdefghijlmnopqrstuvwxyz ''"

definition plain :: "char \<Rightarrow> bool" where
  "plain c \<longleftrightarrow> toLowerChar c \<in> set plainLetters"

subsection \<open>Sample environments\<close>


definition sample_page :: bing_page where
  "sample_page = \<lparr>pageName = Some ''Rates today'', pageUrl = Some ''https://example.org/rates'',
                   pageSnippet = None, pageDescription = None\<rparr>"

definition sample_upstream :: upstream_data where
  "sample_upstream = \<lparr>userProfile = JNull, fxRates = [], stockQuotes = [], cryptoPrices = [],
                       transactions = JArr []\<rparr>"

text \<open>
  Two environments, both with the search credentials set and no language-model key: in
  \<open>env_found\<close> the provider returns one page for every query, in \<open>env_nothing\<close> it
  returns none.
\<close>

definition env_found :: env where
  "env_found =
     \<lparr>BING_SEARCH_ENDPOINT = Some ''https://search.example/v7'', BING_SEARCH_KEY = Some ''k'',
      OPENAI_API_KEY = None, bing = (\<lambda>n q. WebPages [sample_page]),
      openai = (\<lambda>ctx. LlmFetchThrows), upstream = (\<lambda>uid q. sample_upstream),
      nowAtLookup = 1000, nowAtStore = 1200\<rparr>"

definition env_nothing :: env where
  "env_nothing = env_found\<lparr>bing := (\<lambda>n q. WebPages [])\<rparr>"

definition state0 :: state where
  "state0 = \<lparr>searchCache = [], searchCalls = 0\<rparr>"

text \<open>What the first lookup of \<open>latest news\<close> in \<open>env_found\<close> returns and leaves.\<close>

definition found_results :: "WebSearchResult list" where
  "found_results = [\<lparr>title = ''Rates today'', url = ''https://example.org/rates'', snippet = None\<rparr>]"

definition state_after_fetch :: state where
  "state_after_fetch =
     \<lparr>searchCache = [(''latest news'', \<lparr>timestamp = 1200, results = found_results\<rparr>)],
      searchCalls = 1\<rparr>"

subsection \<open>Requests and further environments\<close>

definition user_message :: "string \<Rightarrow> jsval" where
  "user_message t = JObj [(''role'', JStr ''user''), (''text'', JStr t)]"

definition post :: "jsval \<Rightarrow> request" where
  "post b = \<lparr>httpMethod = ''POST'', body = b, parsedBody = None\<rparr>"

definition req_save :: request where
  "req_save =
     post (JObj [(''userId'', JStr ''u1''),
                 (''messages'', JArr [user_message ''How much can I save this month?''])])"

definition req_news :: request where
  "req_news = post (JObj [(''messages'', JArr [user_message ''latest news on rates''])])"

definition req_budget :: request where
  "req_budget = post (JObj [(''messages'', JArr [user_message ''Help me BUDGET better''])])"

definition req_null_message :: request where
  "req_null_message = post (JObj [(''messages'', JArr [JNull])])"


definition req_not_json :: request where
  "req_not_json = post (JStr ''not json'')"

text \<open>
  \<open>env_down\<close>: every credential is set and every upstream call fails. \<open>env_model\<close>:
  the search finds a page and the language model replies.
\<close>

definition env_down :: env where
  "env_down =
     env_found\<lparr>OPENAI_API_KEY := Some ''sk-test'', bing := (\<lambda>n q. FetchThrows),
               openai := (\<lambda>ctx. LlmFetchThrows)\<rparr>"

definition env_model :: env where
  "env_model =
     env_found\<lparr>OPENAI_API_KEY := Some ''sk-test'',
               openai := (\<lambda>ctx. LlmContent (Some '' Rates moved today. ''))\<rparr>"

definition env_offline :: env where
  "env_offline =
     \<lparr>BING_SEARCH_ENDPOINT = None, BING_SEARCH_KEY = None, OPENAI_API_KEY = None,
      bing = (\<lambda>n q. FetchThrows), openai = (\<lambda>ctx. LlmFetchThrows),
      upstream = (\<lambda>uid q. sample_upstream), nowAtLookup = 1000, nowAtStore = 1200\<rparr>"

text \<open>
  A question whose \<open>stock\<close> is spelt with the Kelvin sign U+212A, and an environment
  whose language model replies with two no-break spaces U+00A0.
\<close>

definition req_kelvin :: request where
  "req_kelvin =
     post (JObj [(''messages'',
       JArr [user_message (''Is the stoc'' @ [CHR 0xE2, CHR 0x84, CHR 0xAA] @ '' rising?'')])])"

definition env_blank_reply :: env where
  "env_blank_reply =
     env_found\<lparr>OPENAI_API_KEY := Some ''sk-test'',
               openai := (\<lambda>ctx. LlmContent (Some [CHR 0xC2, CHR 0xA0, CHR 0xC2, CHR 0xA0]))\<rparr>"

definition no_live_data :: live_data where
  "no_live_data = \<lparr>fxSymbols = [], stocks = [], crypto = [], transactionCount = 0\<rparr>"

definition ctx_budget :: gen_context where
  "ctx_budget =
     \<lparr>ctxQuestion = ''Help me BUDGET better'',
      ctxMessages = [user_message ''Help me BUDGET better''],
      ctxUpstream = sample_upstream, ctxWebResults = []\<rparr>"

subsection \<open>The handler's fixed responses and keywords\<close>

text \<open>
  The keywords \<open>basicHeuristicAnswer\<close> looks for, in the order of its tests, and the
  response of the handler to a body without messages.
\<close>

definition heuristicKeywords :: "string list" where
  "heuristicKeywords =
     [''budget'', ''spend'', ''save'', ''savings'', ''invest'', ''stock'', ''etf'', ''runway'',
      ''forecast'', ''crypto'']"

definition badRequest :: response where
  "badRequest =
     \<lparr>status = 400, headers = [], json = ErrorBody ''Invalid request body: missing messages''\<rparr>"

section \<open>Properties of the search cache\<close>

subsection \<open>Lookup and the TTL\<close>

lemma map_of_delete_self: "map_of (AList.delete k c) k = None"
  by (simp add: AList.delete_conv)

text \<open>
  Claim C8. A lookup returns stored results only when the key is present and
  \<open>now - timestamp \<le> TTL\<close>, and then it returns them and leaves the store as it is;
  an entry older than the TTL makes the lookup return absent, whatever the size of the
  store, and that lookup deletes the key.
\<close>

theorem getCachedSearch_ttl:
  "(getCachedSearch now q c = (Some rs, c') \<longrightarrow>
      (\<exists>e. map_of c q = Some e \<and> results e = rs \<and> now - timestamp e \<le> SEARCH_TTL_MS) \<and> c' = c)
   \<and> (map_of c q = Some e \<and> now - timestamp e \<le> SEARCH_TTL_MS \<longrightarrow>
      getCachedSearch now q c = (Some (results e), c))
   \<and> (map_of c q = Some e \<and> now - timestamp e > SEARCH_TTL_MS \<longrightarrow>
      getCachedSearch now q c = (None, AList.delete q c)
      \<and> map_of (AList.delete q c) q = None)"
  by (auto simp: getCachedSearch_def map_of_delete_self split: option.splits if_splits)

theorem getCachedSearch_ttl_witness:
  "map_of [(''latest news'', sample_entry)] ''latest news'' = Some sample_entry
   \<and> 300000 - timestamp sample_entry \<le> SEARCH_TTL_MS
   \<and> getCachedSearch 300000 ''latest news'' [(''latest news'', sample_entry)]
       = (Some [sample_result], [(''latest news'', sample_entry)])
   \<and> 300001 - timestamp sample_entry > SEARCH_TTL_MS
   \<and> getCachedSearch 300001 ''latest news'' [(''latest news'', sample_entry)] = (None, [])"
proof -
  let ?c = "[(''latest news'', sample_entry)]"
  have h1: "map_of ?c ''latest news'' = Some sample_entry"
    by simp
  have h2: "300000 - timestamp sample_entry \<le> SEARCH_TTL_MS"
    and h3: "300001 - timestamp sample_entry > SEARCH_TTL_MS"
    by (simp_all add: sample_entry_def SEARCH_TTL_MS_def)
  have r: "results sample_entry = [sample_result]"
    by (simp add: sample_entry_def)
  have d: "AList.delete ''latest news'' ?c = []"
    by simp
  show ?thesis
    using getCachedSearch_ttl [of 300000 "''latest news''" ?c "[sample_result]" ?c sample_entry]
      getCachedSearch_ttl [of 300001 "''latest news''" ?c "[sample_result]" ?c sample_entry]
      h1 h2 h3 r d
    by simp
qed

subsection \<open>The store keeps its bound\<close>

lemma length_update_le: "length (AList.update k v c) \<le> Suc (length c)"
  by (induction c) auto

lemma length_update_present: "k \<in> fst ` set c \<Longrightarrow> length (AList.update k v c) = length c"
  by (induction c) auto

lemma set_update_subset: "set (AList.update k v c) \<subseteq> insert (k, v) (set c)"
  by (induction c) auto

lemma set_delete_subset: "set (AList.delete k c) \<subseteq> set c"
  by (auto simp: AList.delete_eq)

lemma delete_absent: "k \<notin> fst ` set c \<Longrightarrow> AList.delete k c = c"
  by (induction c) auto

lemma evictOldest_Cons:
  "distinct (map fst ((k, e) # rest)) \<Longrightarrow> k \<noteq> [] \<Longrightarrow> evictOldest ((k, e) # rest) = rest"
  by (simp add: evictOldest_def firstKey_def delete_absent)

lemma list_all_subset: "set ys \<subseteq> set xs \<Longrightarrow> list_all P xs \<Longrightarrow> list_all P ys"
  by (auto simp: list_all_iff)

lemma cache_inv_Nil: "cache_inv []"
  by (simp add: cache_inv_def)

lemma cache_inv_delete: "cache_inv c \<Longrightarrow> cache_inv (AList.delete k c)"
  unfolding cache_inv_def
  using AList.length_delete_le [of k c] set_delete_subset [of k c]
  by (auto simp: AList.distinct_delete intro: list_all_subset)

lemma evict_when_full:
  assumes inv: "cache_inv c"
  defines "c1 \<equiv> (if length c \<ge> SEARCH_CACHE_LIMIT then evictOldest c else c)"
  shows "distinct (map fst c1) \<and> list_all entry_ok c1 \<and> length c1 < SEARCH_CACHE_LIMIT"
proof (cases "length c \<ge> SEARCH_CACHE_LIMIT")
  case False
  then show ?thesis using inv by (auto simp: c1_def cache_inv_def)
next
  case True
  then obtain k e rest where c: "c = (k, e) # rest"
    by (cases c) (auto simp: SEARCH_CACHE_LIMIT_def)
  have k: "k \<noteq> []" using inv by (simp add: c cache_inv_def entry_ok_def)
  have "c1 = rest" using True inv k
    by (simp add: c1_def c cache_inv_def evictOldest_Cons)
  then show ?thesis using inv by (auto simp: c cache_inv_def)
qed

lemma cache_inv_set:
  assumes inv: "cache_inv c" and q: "q \<noteq> []"
  shows "cache_inv (setCachedSearch now q rs c)"
proof (cases "rs = []")
  case True
  then show ?thesis using inv by (simp add: setCachedSearch_def)
next
  case rs: False
  let ?v = "\<lparr>timestamp = now, results = rs\<rparr>"
  let ?c1 = "if length c \<ge> SEARCH_CACHE_LIMIT then evictOldest c else c"
  have set_eq: "setCachedSearch now q rs c = AList.update q ?v ?c1"
    using rs by (simp add: setCachedSearch_def)
  have c1: "distinct (map fst ?c1) \<and> list_all entry_ok ?c1 \<and> length ?c1 < SEARCH_CACHE_LIMIT"
    using evict_when_full [OF inv] .
  have "distinct (map fst (AList.update q ?v ?c1))"
    using c1 by (simp only: AList.distinct_update)
  moreover have "length (AList.update q ?v ?c1) \<le> SEARCH_CACHE_LIMIT"
    using c1 length_update_le [of q ?v ?c1] by linarith
  moreover have "list_all entry_ok (AList.update q ?v ?c1)"
    using c1 set_update_subset [of q ?v ?c1] q rs
    by (auto simp: list_all_iff entry_ok_def)
  ultimately show ?thesis by (simp only: set_eq cache_inv_def simp_thms)
qed

lemma cache_inv_get: "cache_inv c \<Longrightarrow> cache_inv (snd (getCachedSearch now q c))"
  by (auto simp: getCachedSearch_def cache_inv_delete split: option.splits)

lemma reachable_cache_inv: "reachable_cache c \<Longrightarrow> cache_inv c"
proof (induction rule: reachable_cache.induct)
  case fresh
  show ?case by (rule cache_inv_Nil)
next
  case (lookup c e q now)
  then show ?case by (simp add: cache_inv_get)
next
  case (store c e q rs now)
  then show ?case by (simp add: cache_inv_set searchable_def)
qed

lemma cache_inv_has_results: "cache_inv c \<Longrightarrow> list_all has_results c"
  by (simp add: cache_inv_def list_all_iff entry_ok_def has_results_def)

text \<open>The handler touches the store only through the calls \<open>reachable_cache\<close> follows.\<close>

lemma performWebSearch_cache: "searchCache (snd (performWebSearch e q st)) = searchCache st"
  by (simp add: performWebSearch_def Let_def split: bing_reply.splits)

lemma reachable_after_lookup:
  assumes "reachable_cache (searchCache st)"
  shows "reachable_cache (searchCache (snd (getWebResultsForQuestion e q st)))"
proof (cases "searchable e q")
  case False
  then have "getWebResultsForQuestion e q st = ([], st)"
    by (auto simp: searchable_def getWebResultsForQuestion_def)
  with assms show ?thesis by simp
next
  case True
  define c where "c = snd (getCachedSearch (nowAtLookup e) q (searchCache st))"
  have c: "reachable_cache c"
    unfolding c_def using assms True by (rule reachable_cache.lookup)
  obtain cached where g: "getCachedSearch (nowAtLookup e) q (searchCache st) = (cached, c)"
    unfolding c_def by (cases "getCachedSearch (nowAtLookup e) q (searchCache st)") simp
  show ?thesis
  proof (cases cached)
    case (Some found)
    with True g have "searchCache (snd (getWebResultsForQuestion e q st)) = c"
      by (simp add: searchable_def getWebResultsForQuestion_def)
    with c show ?thesis by simp
  next
    case None
    obtain rs st' where p: "performWebSearch e q (st\<lparr>searchCache := c\<rparr>) = (rs, st')"
      by (cases "performWebSearch e q (st\<lparr>searchCache := c\<rparr>)")
    then have same: "searchCache st' = c"
      using performWebSearch_cache [of e q "st\<lparr>searchCache := c\<rparr>"] by simp
    show ?thesis
    proof (cases "length rs = 0")
      case True
      with \<open>searchable e q\<close> g None p
      have "searchCache (snd (getWebResultsForQuestion e q st)) = searchCache st'"
        by (simp add: searchable_def getWebResultsForQuestion_def)
      with c same show ?thesis by simp
    next
      case False
      with \<open>searchable e q\<close> g None p
      have "searchCache (snd (getWebResultsForQuestion e q st))
              = setCachedSearch (nowAtStore e) q rs (searchCache st')"
        by (simp add: searchable_def getWebResultsForQuestion_def)
      moreover have "reachable_cache (setCachedSearch (nowAtStore e) q rs c)"
        using c \<open>searchable e q\<close> False by (rule reachable_cache.store)
      ultimately show ?thesis using same by simp
    qed
  qed
qed

lemma tryBlock_state:
  "snd (tryBlock e req st) = st
   \<or> (\<exists>q. snd (tryBlock e req st) = snd (getWebResultsForQuestion e q st))"
proof (cases "\<exists>b msgs q. parseBody req = Inr b \<and> bodyMessages b = Some msgs
                    \<and> extractQuestion msgs = Inr (JStr q)")
  case True
  then obtain b msgs q where "parseBody req = Inr b" "bodyMessages b = Some msgs"
    "extractQuestion msgs = Inr (JStr q)"
    by blast
  then have "snd (tryBlock e req st) = snd (getWebResultsForQuestion e q st)"
    by (simp add: tryBlock_def Let_def split: sum.splits prod.splits)
  then show ?thesis by blast
next
  case False
  then have "snd (tryBlock e req st) = st"
    by (auto simp: tryBlock_def Let_def split: sum.splits option.splits jsval.splits)
  then show ?thesis by blast
qed

lemma reachable_after_request:
  assumes "reachable_cache (searchCache st)"
  shows "reachable_cache (searchCache (snd (handler e req st)))"
proof -
  have "snd (handler e req st) = st \<or> snd (handler e req st) = snd (tryBlock e req st)"
    by (auto simp: handler_def split: prod.splits sum.splits)
  then show ?thesis
    using assms tryBlock_state [of e req st] reachable_after_lookup [OF assms] by auto
qed

lemma evict_at_capacity:
  assumes inv: "cache_inv c" and rs: "rs \<noteq> []" and full: "SEARCH_CACHE_LIMIT \<le> length c"
  shows "\<exists>k e rest. c = (k, e) # rest
           \<and> setCachedSearch now q rs c = AList.update q \<lparr>timestamp = now, results = rs\<rparr> rest"
proof -
  from full obtain k e rest where c: "c = (k, e) # rest"
    by (cases c) (auto simp: SEARCH_CACHE_LIMIT_def)
  have k: "k \<noteq> []" and d: "distinct (map fst ((k, e) # rest))"
    using inv by (simp_all add: c cache_inv_def entry_ok_def)
  have "setCachedSearch now q rs c = AList.update q \<lparr>timestamp = now, results = rs\<rparr> rest"
    using rs full evictOldest_Cons [OF d k] by (simp add: setCachedSearch_def c)
  with c show ?thesis by blast
qed

text \<open>
  Claim C7. A put with no results leaves the store as it is. Every store the cache can
  hold (after any sequence of the gets and puts the program issues, from the empty
  store) has at most \<open>SEARCH_CACHE_LIMIT\<close> entries and none with an empty result list;
  on such a store a put of results evicts nothing below capacity, and at capacity it
  removes exactly the head of the insertion order, the oldest key, and then sets the
  key. Every run of the handler leads from such a store to such a store.
\<close>

theorem cache_bounded_fifo:
  "setCachedSearch now q [] c = c
   \<and> (reachable_cache c \<longrightarrow>
        length c \<le> SEARCH_CACHE_LIMIT \<and> list_all has_results c
        \<and> (rs \<noteq> [] \<and> length c < SEARCH_CACHE_LIMIT \<longrightarrow>
             setCachedSearch now q rs c = AList.update q \<lparr>timestamp = now, results = rs\<rparr> c)
        \<and> (rs \<noteq> [] \<and> SEARCH_CACHE_LIMIT \<le> length c \<longrightarrow>
             (\<exists>k e rest. c = (k, e) # rest
                \<and> setCachedSearch now q rs c
                    = AList.update q \<lparr>timestamp = now, results = rs\<rparr> rest)))
   \<and> (reachable_cache (searchCache st) \<longrightarrow>
        reachable_cache (searchCache (snd (handler env req st))))"
proof -
  have noop: "setCachedSearch now q [] c = c"
    by (simp add: setCachedSearch_def)
  have below: "rs \<noteq> [] \<and> length c < SEARCH_CACHE_LIMIT \<longrightarrow>
        setCachedSearch now q rs c = AList.update q \<lparr>timestamp = now, results = rs\<rparr> c"
    by (simp add: setCachedSearch_def)
  have inv: "length c \<le> SEARCH_CACHE_LIMIT \<and> list_all has_results c" if "reachable_cache c"
    using reachable_cache_inv [OF that] cache_inv_has_results [of c]
    by (simp add: cache_inv_def)
  have full: "\<exists>k e rest. c = (k, e) # rest
                \<and> setCachedSearch now q rs c
                    = AList.update q \<lparr>timestamp = now, results = rs\<rparr> rest"
    if "reachable_cache c" and "rs \<noteq> []" and "SEARCH_CACHE_LIMIT \<le> length c"
    using evict_at_capacity [OF reachable_cache_inv [OF that(1)] that(2,3)] .
  have run: "reachable_cache (searchCache (snd (handler env req st)))"
    if "reachable_cache (searchCache st)"
    using reachable_after_request [OF that] .
  show ?thesis
    using noop below inv full run by blast
qed

lemma reachable_fill:
  "reachable_cache c \<Longrightarrow> list_all (searchable e) ks \<Longrightarrow>
   reachable_cache (fold (\<lambda>k. setCachedSearch 0 k [sample_result]) ks c)"
proof (induction ks arbitrary: c)
  case Nil
  then show ?case by simp
next
  case (Cons k ks)
  from Cons.prems have "reachable_cache (setCachedSearch 0 k [sample_result] c)"
    by (auto intro: reachable_cache.store)
  with Cons show ?case by simp
qed

lemma fill_full_cache: "fold (\<lambda>k. setCachedSearch 0 k [sample_result]) sample_keys [] = full_cache"
  by code_simp

lemma sample_keys_searchable: "list_all (searchable env_found) sample_keys"
  by code_simp

lemma reachable_full_cache: "reachable_cache full_cache"
  using reachable_fill [OF reachable_cache.fresh sample_keys_searchable] fill_full_cache
  by simp

lemma full_cache_Cons:
  "full_cache = (''news old'', sample_entry) # map (\<lambda>k. (k, sample_entry)) (tl sample_keys)"
  by (simp add: full_cache_def sample_keys_def)

lemma put_on_full_cache:
  "setCachedSearch 5 ''latest news'' [sample_result] full_cache
     = map (\<lambda>k. (k, sample_entry)) (tl sample_keys)
       @ [(''latest news'', \<lparr>timestamp = 5, results = [sample_result]\<rparr>)]"
  by code_simp

theorem cache_bounded_fifo_witness:
  "reachable_cache full_cache
   \<and> length full_cache \<le> SEARCH_CACHE_LIMIT \<and> list_all has_results full_cache
   \<and> SEARCH_CACHE_LIMIT \<le> length full_cache
   \<and> (\<exists>k e rest. full_cache = (k, e) # rest
         \<and> setCachedSearch 5 ''latest news'' [sample_result] full_cache
             = AList.update ''latest news'' \<lparr>timestamp = 5, results = [sample_result]\<rparr> rest)
   \<and> setCachedSearch 5 ''latest news'' [sample_result] full_cache
       = map (\<lambda>k. (k, sample_entry)) (tl sample_keys)
         @ [(''latest news'', \<lparr>timestamp = 5, results = [sample_result]\<rparr>)]
   \<and> reachable_cache []
   \<and> length ([] :: search_cache) < SEARCH_CACHE_LIMIT
   \<and> setCachedSearch 5 ''latest news'' [sample_result] []
       = [(''latest news'', \<lparr>timestamp = 5, results = [sample_result]\<rparr>)]
   \<and> reachable_cache (searchCache (snd (handler env_found req_news state0)))"
proof -
  have h1: "SEARCH_CACHE_LIMIT \<le> length full_cache"
    by code_simp
  have h2: "[sample_result] \<noteq> []"
    by simp
  have h3: "length ([] :: search_cache) < SEARCH_CACHE_LIMIT"
    by (simp add: SEARCH_CACHE_LIMIT_def)
  have h4: "reachable_cache (searchCache state0)"
    by (simp add: state0_def reachable_cache.fresh)
  have u: "AList.update ''latest news'' \<lparr>timestamp = 5, results = [sample_result]\<rparr> []
             = [(''latest news'', \<lparr>timestamp = 5, results = [sample_result]\<rparr>)]"
    by simp
  note full = cache_bounded_fifo
    [where c = full_cache and rs = "[sample_result]" and now = 5 and q = "''latest news''"
       and st = state0 and env = env_found and req = req_news]
  note empty = cache_bounded_fifo
    [where c = "[]" and rs = "[sample_result]" and now = 5 and q = "''latest news''"
       and st = state0 and env = env_found and req = req_news]
  have a: "length full_cache \<le> SEARCH_CACHE_LIMIT \<and> list_all has_results full_cache"
    and b: "\<exists>k e rest. full_cache = (k, e) # rest
         \<and> setCachedSearch 5 ''latest news'' [sample_result] full_cache
             = AList.update ''latest news'' \<lparr>timestamp = 5, results = [sample_result]\<rparr> rest"
    and c: "reachable_cache (searchCache (snd (handler env_found req_news state0)))"
    using full reachable_full_cache h1 h2 h4 by blast+
  have d: "setCachedSearch 5 ''latest news'' [sample_result] []
       = [(''latest news'', \<lparr>timestamp = 5, results = [sample_result]\<rparr>)]"
    using empty reachable_cache.fresh h2 h3 u by simp
  show ?thesis
    using a b c d h1 h3 reachable_full_cache reachable_cache.fresh put_on_full_cache by blast
qed

text \<open>
  Taken alone, \<open>setCachedSearch\<close> does not evict an oldest key that is the empty string:
  the test \<open>if (firstKey)\<close> is false on it. No store the cache can hold has that key,
  since \<open>getWebResultsForQuestion\<close> returns on an empty question before it reaches the
  cache.
\<close>

lemma empty_key_not_evicted:
  "rs \<noteq> [] \<Longrightarrow>
   setCachedSearch now q rs (([], e) # rest)
     = AList.update q \<lparr>timestamp = now, results = rs\<rparr> (([], e) # rest)"
  by (simp add: setCachedSearch_def evictOldest_def firstKey_def)

lemma empty_key_unreachable: "\<not> reachable_cache (([], e) # rest)"
  using reachable_cache_inv [of "([], e) # rest"]
  by (auto simp: cache_inv_def entry_ok_def)

subsection \<open>A put on a key that is present\<close>

text \<open>
  Claim C10. On a store the cache can hold that is at capacity, a put of results for a
  key already in the store still removes the head of the insertion order before it
  overwrites; when the key is not that head, the head (an unrelated entry) is gone and
  the store is left strictly below its capacity. The witness is such a put.
\<close>

theorem overwrite_at_capacity:
  "reachable_cache c \<and> SEARCH_CACHE_LIMIT \<le> length c \<and> q \<in> fst ` set c \<and> rs \<noteq> [] \<longrightarrow>
     (\<exists>k e rest. c = (k, e) # rest
        \<and> setCachedSearch now q rs c = AList.update q \<lparr>timestamp = now, results = rs\<rparr> rest
        \<and> (q \<noteq> k \<longrightarrow>
             map_of (setCachedSearch now q rs c) k = None
             \<and> length (setCachedSearch now q rs c) < SEARCH_CACHE_LIMIT))"
proof (intro impI)
  let ?v = "\<lparr>timestamp = now, results = rs\<rparr>"
  assume h: "reachable_cache c \<and> SEARCH_CACHE_LIMIT \<le> length c \<and> q \<in> fst ` set c \<and> rs \<noteq> []"
  then have inv: "cache_inv c"
    by (simp add: reachable_cache_inv)
  from evict_at_capacity [OF inv, of rs now q] h
  obtain k e rest where c: "c = (k, e) # rest"
    and eq: "setCachedSearch now q rs c = AList.update q ?v rest"
    by blast
  have len: "length c = SEARCH_CACHE_LIMIT" and d: "distinct (map fst ((k, e) # rest))"
    using inv h by (simp_all add: cache_inv_def c)
  have gone: "map_of (AList.update q ?v rest) k = None" if "q \<noteq> k"
  proof -
    have "k \<notin> fst ` set rest" using d by auto
    then have "map_of rest k = None" by (simp add: map_of_eq_None_iff)
    then show ?thesis using that by (simp add: AList.update_conv')
  qed
  have less: "length (AList.update q ?v rest) < SEARCH_CACHE_LIMIT" if "q \<noteq> k"
  proof -
    have "q \<in> fst ` set rest" using h c that by auto
    then have "length (AList.update q ?v rest) = length rest" by (rule length_update_present)
    then show ?thesis using len c by simp
  qed
  show "\<exists>k e rest. c = (k, e) # rest
        \<and> setCachedSearch now q rs c = AList.update q ?v rest
        \<and> (q \<noteq> k \<longrightarrow>
             map_of (setCachedSearch now q rs c) k = None
             \<and> length (setCachedSearch now q rs c) < SEARCH_CACHE_LIMIT)"
    using c eq gone less by auto
qed

theorem overwrite_at_capacity_witness:
  "reachable_cache full_cache \<and> SEARCH_CACHE_LIMIT \<le> length full_cache
   \<and> ''news aa'' \<in> fst ` set full_cache
   \<and> full_cache = (''news old'', sample_entry) # map (\<lambda>k. (k, sample_entry)) (tl sample_keys)
   \<and> map_of (setCachedSearch 5 ''news aa'' [sample_result] full_cache) ''news old'' = None
   \<and> length (setCachedSearch 5 ''news aa'' [sample_result] full_cache) < SEARCH_CACHE_LIMIT"
proof -
  have h1: "SEARCH_CACHE_LIMIT \<le> length full_cache"
    by code_simp
  have h2: "''news aa'' \<in> fst ` set full_cache"
    by (simp add: full_cache_def sample_keys_def)
  have h3: "[sample_result] \<noteq> []"
    by simp
  from overwrite_at_capacity [where c = full_cache and q = "''news aa''"
      and rs = "[sample_result]" and now = 5] reachable_full_cache h1 h2 h3
  obtain k e rest where c: "full_cache = (k, e) # rest"
    and out: "''news aa'' \<noteq> k \<longrightarrow>
             map_of (setCachedSearch 5 ''news aa'' [sample_result] full_cache) k = None
             \<and> length (setCachedSearch 5 ''news aa'' [sample_result] full_cache)
                 < SEARCH_CACHE_LIMIT"
    by blast
  from full_cache_Cons
  have "(k, e) # rest
          = (''news old'', sample_entry) # map (\<lambda>k. (k, sample_entry)) (tl sample_keys)"
    unfolding c .
  then have k: "k = ''news old''"
    by simp
  have "''news aa'' \<noteq> ''news old''"
    by simp
  with out k have "map_of (setCachedSearch 5 ''news aa'' [sample_result] full_cache) ''news old'' = None
    \<and> length (setCachedSearch 5 ''news aa'' [sample_result] full_cache) < SEARCH_CACHE_LIMIT"
    by simp
  then show ?thesis
    using reachable_full_cache h1 h2 full_cache_Cons by blast
qed

section \<open>Properties of the safety filter and the web search\<close>

subsection \<open>Substrings and lower case\<close>

lemma startsWith_iff: "startsWith s t \<longleftrightarrow> (\<exists>r. s = t @ r)"
  by (induction s t rule: startsWith.induct) auto

lemma includesStr_iff: "includesStr s t \<longleftrightarrow> (\<exists>p r. s = p @ t @ r)"
proof (induction s)
  case Nil
  then show ?case by auto
next
  case (Cons c cs)
  have "(\<exists>p r. c # cs = p @ t @ r) \<longleftrightarrow> (\<exists>r. c # cs = t @ r) \<or> (\<exists>p r. cs = p @ t @ r)"
  proof
    assume "\<exists>p r. c # cs = p @ t @ r"
    then obtain p r where e: "c # cs = p @ t @ r" by blast
    show "(\<exists>r. c # cs = t @ r) \<or> (\<exists>p r. cs = p @ t @ r)"
    proof (cases p)
      case Nil
      with e show ?thesis by auto
    next
      case (Cons a p')
      with e have "cs = p' @ t @ r" by simp
      then show ?thesis by blast
    qed
  next
    assume "(\<exists>r. c # cs = t @ r) \<or> (\<exists>p r. cs = p @ t @ r)"
    then show "\<exists>p r. c # cs = p @ t @ r"
    proof
      assume "\<exists>r. c # cs = t @ r"
      then obtain r where "c # cs = [] @ t @ r" by auto
      then show ?thesis by blast
    next
      assume "\<exists>p r. cs = p @ t @ r"
      then obtain p r where "c # cs = (c # p) @ t @ r" by auto
      then show ?thesis by blast
    qed
  qed
  with Cons show ?case by (simp add: startsWith_iff)
qed

lemma plain_not_special:
  assumes "plain c"
  shows "c \<noteq> CHR 0xE2" "c \<noteq> CHR 0xC4" "c \<noteq> CHR 0x84" "c \<noteq> CHR 0xAA" "c \<noteq> CHR 0xB0"
  using assms by (auto simp: plain_def plainLetters_def toLowerChar_def)

lemma plainLetters_facts:
  "CHR ''k'' \<notin> set plainLetters" "CHR 0xCC \<notin> set plainLetters"
  by (simp_all add: plainLetters_def)

text \<open>A plain byte is lowered on its own, whatever follows it.\<close>

lemma toLowerCase_plain_Cons:
  assumes "plain c"
  shows "toLowerCase (c # w) = toLowerChar c # toLowerCase w"
proof (cases w rule: toLowerCase.cases)
  case (1 x y z zs)
  then show ?thesis using plain_not_special [OF assms] by simp
next
  case (2 x y)
  then show ?thesis using plain_not_special [OF assms] by simp
next
  case (3 x)
  then show ?thesis using plain_not_special [OF assms] by simp
next
  case 4
  then show ?thesis by simp
qed

lemma toLowerCase_plain_append:
  "list_all plain s \<Longrightarrow> toLowerCase (s @ r) = map toLowerChar s @ toLowerCase r"
  by (induction s) (simp_all add: toLowerCase_plain_Cons)

text \<open>Nor does what stands before a plain byte reach into it.\<close>

lemma toLowerCase_before_plain:
  assumes "plain c"
  shows "\<exists>x. toLowerCase (p @ c # w) = x @ toLowerCase (c # w)"
proof (induction p rule: toLowerCase.induct)
  case (1 a b d ds)
  show ?case
  proof (cases "a = CHR 0xE2 \<and> b = CHR 0x84 \<and> d = CHR 0xAA")
    case True
    with 1(1) obtain x where "toLowerCase (ds @ c # w) = x @ toLowerCase (c # w)"
      by blast
    with True have "toLowerCase ((a # b # d # ds) @ c # w) = (CHR ''k'' # x) @ toLowerCase (c # w)"
      by simp
    then show ?thesis by blast
  next
    case k: False
    show ?thesis
    proof (cases "a = CHR 0xC4 \<and> b = CHR 0xB0")
      case True
      with k 1(2) obtain x where "toLowerCase ((d # ds) @ c # w) = x @ toLowerCase (c # w)"
        by blast
      with k True have "toLowerCase ((a # b # d # ds) @ c # w)
          = (CHR ''i'' # CHR 0xCC # CHR 0x87 # x) @ toLowerCase (c # w)"
        by simp
      then show ?thesis by blast
    next
      case False
      with k 1(3) obtain x where "toLowerCase ((b # d # ds) @ c # w) = x @ toLowerCase (c # w)"
        by blast
      moreover have "toLowerCase ((a # b # d # ds) @ c # w)
          = toLowerChar a # toLowerCase ((b # d # ds) @ c # w)"
        using k False by auto
      ultimately have "toLowerCase ((a # b # d # ds) @ c # w)
          = (toLowerChar a # x) @ toLowerCase (c # w)"
        by simp
      then show ?thesis by blast
    qed
  qed
next
  case (2 a b)
  show ?case
  proof (cases "a = CHR 0xC4 \<and> b = CHR 0xB0")
    case True
    then have "toLowerCase ([a, b] @ c # w)
        = [CHR ''i'', CHR 0xCC, CHR 0x87] @ toLowerCase (c # w)"
      using plain_not_special [OF assms] by simp
    then show ?thesis by blast
  next
    case False
    with 2 obtain x where "toLowerCase ([b] @ c # w) = x @ toLowerCase (c # w)"
      by blast
    moreover have "toLowerCase ([a, b] @ c # w) = toLowerChar a # toLowerCase ([b] @ c # w)"
      using False plain_not_special [OF assms] by auto
    ultimately have "toLowerCase ([a, b] @ c # w) = (toLowerChar a # x) @ toLowerCase (c # w)"
      by simp
    then show ?thesis by blast
  qed
next
  case (3 a)
  have "toLowerCase ([a] @ c # w) = [toLowerChar a] @ toLowerCase (c # w)"
    using plain_not_special [OF assms] by (cases w) simp_all
  then show ?case by blast
next
  case 4
  show ?case by simp
qed

text \<open>
  A string whose lower case is made of plain letters is made of plain bytes, and its
  lower case is that of its bytes.
\<close>

lemma lowered_plain:
  "set (toLowerCase s) \<subseteq> set plainLetters \<Longrightarrow>
   list_all plain s \<and> toLowerCase s = map toLowerChar s"
proof (induction s rule: toLowerCase.induct)
  case (1 a b c cs)
  then show ?case
    using plainLetters_facts by (auto simp: plain_def split: if_splits)
next
  case (2 a b)
  then show ?case
    using plainLetters_facts by (auto simp: plain_def split: if_splits)
next
  case (3 a)
  then show ?case by (simp add: plain_def)
next
  case 4
  then show ?case by simp
qed

lemma includesStr_toLowerCase:
  assumes "set (toLowerCase s) \<subseteq> set plainLetters"
  shows "includesStr (toLowerCase (p @ s @ r)) (toLowerCase s)"
proof (cases s)
  case Nil
  have "toLowerCase (p @ r) = [] @ [] @ toLowerCase (p @ r)"
    by simp
  then have "\<exists>x y. toLowerCase (p @ r) = x @ [] @ y"
    by blast
  with Nil show ?thesis by (simp add: includesStr_iff)
next
  case (Cons c cs)
  from lowered_plain [OF assms] have pl: "list_all plain s"
    and low: "toLowerCase s = map toLowerChar s"
    by simp_all
  from pl Cons have "plain c" by simp
  then obtain x where "toLowerCase (p @ c # (cs @ r)) = x @ toLowerCase (c # (cs @ r))"
    using toLowerCase_before_plain by blast
  then have "toLowerCase (p @ s @ r) = x @ toLowerCase (s @ r)"
    using Cons by simp
  also have "\<dots> = x @ toLowerCase s @ toLowerCase r"
    using toLowerCase_plain_append [OF pl, of r] low by simp
  finally show ?thesis
    unfolding includesStr_iff by blast
qed

lemma blocked_plain: "t \<in> set blocked \<Longrightarrow> set t \<subseteq> set plainLetters"
  by (auto simp: blocked_def plainLetters_def)

lemma not_safe_if_blocked:
  "t \<in> set blocked \<Longrightarrow> includesStr (toLowerCase question) t \<Longrightarrow> \<not> isSearchSafe question"
  by (auto simp: isSearchSafe_def list_ex_iff)

text \<open>
  Claim C5, as it holds. The blocklist of the source is \<open>blocked\<close>; it has
  \<open>password\<close>, \<open>card number\<close>, \<open>ssn\<close> and \<open>cvv\<close>, and \<open>pin code\<close> where the
  claim has PIN. A question that contains one of its terms in any mix of upper and lower
  case is not safe to search, and \<open>getWebResultsForQuestion\<close> returns no results and
  leaves the state as it is (no request to the provider, the cache untouched), whatever
  the environment and the trigger words.
\<close>

theorem blocked_question_never_searched:
  "set [''password'', ''card number'', ''ssn'', ''cvv'', ''pin code''] \<subseteq> set blocked
   \<and> (t \<in> set blocked \<and> question = p @ s @ r \<and> toLowerCase s = t \<longrightarrow>
        \<not> isSearchSafe question \<and> getWebResultsForQuestion e question st = ([], st))"
proof -
  have terms: "set [''password'', ''card number'', ''ssn'', ''cvv'', ''pin code''] \<subseteq> set blocked"
    by (simp add: blocked_def)
  have "\<not> isSearchSafe question \<and> getWebResultsForQuestion e question st = ([], st)"
    if h: "t \<in> set blocked \<and> question = p @ s @ r \<and> toLowerCase s = t"
  proof -
    from h have a: "t \<in> set blocked" and b: "question = p @ s @ r" and c: "toLowerCase s = t"
      by blast+
    have "set (toLowerCase s) \<subseteq> set plainLetters"
      using blocked_plain [OF a] c by simp
    then have "includesStr (toLowerCase question) t"
      unfolding b c [symmetric] by (rule includesStr_toLowerCase)
    with a have "\<not> isSearchSafe question"
      by (rule not_safe_if_blocked)
    then show ?thesis
      by (simp add: getWebResultsForQuestion_def)
  qed
  with terms show ?thesis by blast
qed

theorem blocked_question_never_searched_witness:
  "''card number'' \<in> set blocked
   \<and> ''What is my Card Number today?'' = ''What is my '' @ ''Card Number'' @ '' today?''
   \<and> toLowerCase ''Card Number'' = ''card number''
   \<and> shouldUseWebSearch ''What is my Card Number today?''
   \<and> \<not> isSearchSafe ''What is my Card Number today?''
   \<and> getWebResultsForQuestion env_found ''What is my Card Number today?'' state0 = ([], state0)"
proof -
  have h1: "''card number'' \<in> set blocked"
    by (simp add: blocked_def)
  have h2: "''What is my Card Number today?'' = ''What is my '' @ ''Card Number'' @ '' today?''"
    by simp
  have h3: "toLowerCase ''Card Number'' = ''card number''"
    by (simp add: toLowerChar_def)
  have h4: "shouldUseWebSearch ''What is my Card Number today?''"
    by code_simp
  show ?thesis
    using blocked_question_never_searched
      [of "''card number''" "''What is my Card Number today?''" "''What is my ''"
          "''Card Number''" "'' today?''" env_found state0] h1 h2 h3 h4
    by blast
qed

text \<open>
  Claim C5 as stated fails for PIN: the question below contains it, is safe to search by
  \<open>isSearchSafe\<close>, and is sent to the provider.
\<close>

theorem pin_question_is_searched:
  "''What is my PIN?'' = ''What is my '' @ ''PIN'' @ ''?''
   \<and> toLowerCase ''PIN'' = ''pin''
   \<and> isSearchSafe ''What is my PIN?''
   \<and> fst (getWebResultsForQuestion env_found ''What is my PIN?'' state0) \<noteq> []
   \<and> searchCalls (snd (getWebResultsForQuestion env_found ''What is my PIN?'' state0)) = 1"
  by code_simp

subsection \<open>A repeated lookup\<close>

lemma map_of_setCachedSearch:
  "rs \<noteq> [] \<Longrightarrow> map_of (setCachedSearch now q rs c) q = Some \<lparr>timestamp = now, results = rs\<rparr>"
  by (simp add: setCachedSearch_def AList.update_conv')

lemma performWebSearch_state:
  "performWebSearch e q st = (rs, st') \<Longrightarrow> rs \<noteq> [] \<Longrightarrow>
   searchCalls st' = Suc (searchCalls st) \<and> searchCache st' = searchCache st"
  by (auto simp: performWebSearch_def Let_def split: bing_reply.splits if_splits)

lemma unsearchable_no_results:
  "\<not> searchable e q \<Longrightarrow> getWebResultsForQuestion e q st = ([], st)"
  by (auto simp: searchable_def getWebResultsForQuestion_def)

lemma lookup_hit:
  assumes "searchable e q" and "map_of (searchCache st) q = Some en"
    and "nowAtLookup e - timestamp en \<le> SEARCH_TTL_MS"
  shows "getWebResultsForQuestion e q st = (results en, st)"
  using assms
  by (simp add: searchable_def getWebResultsForQuestion_def getCachedSearch_def)

lemma lookup_nonempty_cases:
  assumes s: "searchable e q" and r: "getWebResultsForQuestion e q st = (rs, st1)"
    and ne: "rs \<noteq> []"
  shows "(\<exists>en. map_of (searchCache st) q = Some en \<and> results en = rs
              \<and> nowAtLookup e - timestamp en \<le> SEARCH_TTL_MS \<and> st1 = st)
         \<or> (searchCalls st1 = Suc (searchCalls st)
             \<and> map_of (searchCache st1) q = Some \<lparr>timestamp = nowAtStore e, results = rs\<rparr>)"
proof (cases "getCachedSearch (nowAtLookup e) q (searchCache st)")
  case (Pair cached c)
  show ?thesis
  proof (cases cached)
    case (Some found)
    have "(\<exists>en. map_of (searchCache st) q = Some en \<and> results en = found
              \<and> nowAtLookup e - timestamp en \<le> SEARCH_TTL_MS) \<and> c = searchCache st"
      using Pair Some
      by (auto simp: getCachedSearch_def split: option.splits if_splits)
    moreover have "rs = found \<and> st1 = st\<lparr>searchCache := c\<rparr>"
      using s r Pair Some by (auto simp: searchable_def getWebResultsForQuestion_def)
    ultimately show ?thesis by auto
  next
    case None
    obtain found st' where p: "performWebSearch e q (st\<lparr>searchCache := c\<rparr>) = (found, st')"
      by (cases "performWebSearch e q (st\<lparr>searchCache := c\<rparr>)")
    have eq: "rs = found
          \<and> st1 = st'\<lparr>searchCache := setCachedSearch (nowAtStore e) q found (searchCache st')\<rparr>"
      using s r ne Pair None p
      by (auto simp: searchable_def getWebResultsForQuestion_def split: if_splits)
    then have "searchCalls st' = Suc (searchCalls st)"
      using performWebSearch_state [OF p] ne by simp
    then show ?thesis
      using eq ne by (simp add: map_of_setCachedSearch)
  qed
qed

text \<open>
  Claim C9, as it holds. When a lookup returns a non-empty result, the same lookup
  repeated is served from the cache, with the same result and no request to the
  provider (the state is left as it is), provided the entry is within the TTL at the
  second lookup: counted from the store of the first lookup when that one went to the
  provider, and from the entry's timestamp when the first was itself served from the
  cache.
\<close>

theorem second_lookup_from_cache:
  "BING_SEARCH_ENDPOINT e2 = BING_SEARCH_ENDPOINT e1 \<and> BING_SEARCH_KEY e2 = BING_SEARCH_KEY e1
   \<and> getWebResultsForQuestion e1 q st = (rs, st1) \<and> rs \<noteq> [] \<longrightarrow>
     (searchCalls st1 = Suc (searchCalls st) \<and> nowAtLookup e2 - nowAtStore e1 \<le> SEARCH_TTL_MS
        \<longrightarrow> getWebResultsForQuestion e2 q st1 = (rs, st1))
     \<and> (searchCalls st1 = searchCalls st \<and> map_of (searchCache st) q = Some en
          \<and> nowAtLookup e2 - timestamp en \<le> SEARCH_TTL_MS
        \<longrightarrow> getWebResultsForQuestion e2 q st1 = (rs, st1))"
proof (intro impI)
  assume h: "BING_SEARCH_ENDPOINT e2 = BING_SEARCH_ENDPOINT e1
    \<and> BING_SEARCH_KEY e2 = BING_SEARCH_KEY e1
    \<and> getWebResultsForQuestion e1 q st = (rs, st1) \<and> rs \<noteq> []"
  then have r: "getWebResultsForQuestion e1 q st = (rs, st1)" and ne: "rs \<noteq> []"
    by blast+
  have s1: "searchable e1 q"
    using r ne unsearchable_no_results [of e1 q st] by auto
  then have s2: "searchable e2 q"
    using h by (simp add: searchable_def)
  note cases = lookup_nonempty_cases [OF s1 r ne]
  have miss: "getWebResultsForQuestion e2 q st1 = (rs, st1)"
    if "searchCalls st1 = Suc (searchCalls st) \<and> nowAtLookup e2 - nowAtStore e1 \<le> SEARCH_TTL_MS"
  proof -
    from that cases
    have "map_of (searchCache st1) q = Some \<lparr>timestamp = nowAtStore e1, results = rs\<rparr>"
      by auto
    then show ?thesis
      using lookup_hit [OF s2, of st1 "\<lparr>timestamp = nowAtStore e1, results = rs\<rparr>"] that
      by simp
  qed
  have hit: "getWebResultsForQuestion e2 q st1 = (rs, st1)"
    if "searchCalls st1 = searchCalls st \<and> map_of (searchCache st) q = Some en
          \<and> nowAtLookup e2 - timestamp en \<le> SEARCH_TTL_MS"
  proof -
    from that cases have "results en = rs \<and> st1 = st"
      by auto
    then show ?thesis
      using lookup_hit [OF s2, of st1 en] that by simp
  qed
  show "(searchCalls st1 = Suc (searchCalls st) \<and> nowAtLookup e2 - nowAtStore e1 \<le> SEARCH_TTL_MS
        \<longrightarrow> getWebResultsForQuestion e2 q st1 = (rs, st1))
     \<and> (searchCalls st1 = searchCalls st \<and> map_of (searchCache st) q = Some en
          \<and> nowAtLookup e2 - timestamp en \<le> SEARCH_TTL_MS
        \<longrightarrow> getWebResultsForQuestion e2 q st1 = (rs, st1))"
    using miss hit by blast
qed

lemma first_fetch:
  "getWebResultsForQuestion env_found ''latest news'' state0 = (found_results, state_after_fetch)"
  by code_simp

lemma second_fetch:
  "getWebResultsForQuestion (env_found\<lparr>nowAtLookup := 2000\<rparr>) ''latest news'' state_after_fetch
     = (found_results, state_after_fetch)"
  by code_simp

theorem second_lookup_from_cache_witness:
  "getWebResultsForQuestion env_found ''latest news'' state0 = (found_results, state_after_fetch)
   \<and> found_results \<noteq> []
   \<and> searchCalls state_after_fetch = Suc (searchCalls state0)
   \<and> nowAtLookup (env_found\<lparr>nowAtLookup := 301200\<rparr>) - nowAtStore env_found \<le> SEARCH_TTL_MS
   \<and> getWebResultsForQuestion (env_found\<lparr>nowAtLookup := 2000\<rparr>) ''latest news'' state_after_fetch
       = (found_results, state_after_fetch)
   \<and> map_of (searchCache state_after_fetch) ''latest news''
       = Some \<lparr>timestamp = 1200, results = found_results\<rparr>
   \<and> getWebResultsForQuestion (env_found\<lparr>nowAtLookup := 301200\<rparr>) ''latest news'' state_after_fetch
       = (found_results, state_after_fetch)
   \<and> searchCalls state_after_fetch = 1"
proof -
  let ?e2 = "env_found\<lparr>nowAtLookup := 301200\<rparr>"
  let ?e1 = "env_found\<lparr>nowAtLookup := 2000\<rparr>"
  let ?en = "\<lparr>timestamp = 1200, results = found_results\<rparr>"
  have h1: "BING_SEARCH_ENDPOINT ?e2 = BING_SEARCH_ENDPOINT env_found
            \<and> BING_SEARCH_KEY ?e2 = BING_SEARCH_KEY env_found"
    and h1': "BING_SEARCH_ENDPOINT ?e2 = BING_SEARCH_ENDPOINT ?e1
            \<and> BING_SEARCH_KEY ?e2 = BING_SEARCH_KEY ?e1"
    by simp_all
  have h2: "found_results \<noteq> []"
    by (simp add: found_results_def)
  have h3: "searchCalls state_after_fetch = Suc (searchCalls state0)"
    and h5: "searchCalls state_after_fetch = 1"
    by (simp_all add: state_after_fetch_def state0_def)
  have h4: "nowAtLookup ?e2 - nowAtStore env_found \<le> SEARCH_TTL_MS"
    and h4': "nowAtLookup ?e2 - timestamp ?en \<le> SEARCH_TTL_MS"
    by (simp_all add: env_found_def SEARCH_TTL_MS_def)
  have h6: "map_of (searchCache state_after_fetch) ''latest news'' = Some ?en"
    by (simp add: state_after_fetch_def)
  have after_miss: "getWebResultsForQuestion ?e2 ''latest news'' state_after_fetch
                      = (found_results, state_after_fetch)"
    using second_lookup_from_cache
      [of ?e2 env_found "''latest news''" state0 found_results state_after_fetch ?en]
      first_fetch h1 h2 h3 h4
    by blast
  have after_hit: "getWebResultsForQuestion ?e2 ''latest news'' state_after_fetch
                     = (found_results, state_after_fetch)"
    using second_lookup_from_cache
      [of ?e2 ?e1 "''latest news''" state_after_fetch found_results state_after_fetch ?en]
      second_fetch h1' h2 h4' h6
    by blast
  show ?thesis
    using first_fetch second_fetch h2 h3 h4 h5 h6 after_miss after_hit by blast
qed

text \<open>
  Claim C9 as stated fails when the provider returns no results: an empty result is not
  stored, and the repeated lookup goes to the provider again.
\<close>

theorem empty_result_is_fetched_again:
  "searchable env_nothing ''latest news''
   \<and> nowAtLookup env_nothing - nowAtStore env_nothing \<le> SEARCH_TTL_MS
   \<and> getWebResultsForQuestion env_nothing ''latest news'' state0
       = ([], \<lparr>searchCache = [], searchCalls = 1\<rparr>)
   \<and> nowAtLookup (env_nothing\<lparr>nowAtLookup := 2000, nowAtStore := 2200\<rparr>)
         - nowAtStore env_nothing \<le> SEARCH_TTL_MS
   \<and> getWebResultsForQuestion (env_nothing\<lparr>nowAtLookup := 2000, nowAtStore := 2200\<rparr>)
         ''latest news'' \<lparr>searchCache = [], searchCalls = 1\<rparr>
       = ([], \<lparr>searchCache = [], searchCalls = 2\<rparr>)"
  by code_simp

section \<open>Properties of the answer generator and the handler\<close>

subsection \<open>What an answer looks like\<close>

lemma texts_nonempty:
  "genericText \<noteq> []" "budgetText \<noteq> []" "savingsText \<noteq> []" "investText \<noteq> []"
  "runwayText \<noteq> []" "cryptoText \<noteq> []"
  by (simp_all add: genericText_def budgetText_def savingsText_def investText_def
      runwayText_def cryptoText_def)

lemma heuristicText_nonempty: "heuristicText l \<noteq> []"
  by (simp add: heuristicText_def texts_nonempty)

lemma heuristic_fields:
  "answerText (basicHeuristicAnswer q) \<noteq> []"
  "confidence (basicHeuristicAnswer q) = Some 0.78"
  "sources (basicHeuristicAnswer q) = None"
  "usedSearch (basicHeuristicAnswer q) = None"
  by (simp_all add: basicHeuristicAnswer_def heuristicText_nonempty)

lemma callHeuristic_Inr: "callHeuristic v = Inr a \<Longrightarrow> \<exists>s. a = basicHeuristicAnswer s"
  by (auto simp: callHeuristic_def split: if_splits jsval.splits)

lemma generate_Inr:
  assumes "generateAuroraAnswer e ctx = Inr a"
  shows "(\<exists>s. a = basicHeuristicAnswer s)
         \<or> (answerText a \<noteq> [] \<and> confidence a = Some 0.92
            \<and> sources a = (if ctxWebResults ctx \<noteq> [] then Some (take 4 (ctxWebResults ctx)) else None)
            \<and> usedSearch a = Some (ctxWebResults ctx \<noteq> []))"
proof (cases "effectiveQuestion ctx")
  case (Inl x)
  with assms show ?thesis by (simp add: generateAuroraAnswer_def)
next
  case (Inr question)
  show ?thesis
  proof (cases "\<exists>s. openai e ctx = LlmContent (Some s) \<and> trim s \<noteq> [] \<and> isSet (OPENAI_API_KEY e)")
    case True
    then obtain s where "openai e ctx = LlmContent (Some s)" "trim s \<noteq> []" "isSet (OPENAI_API_KEY e)"
      by blast
    with assms Inr show ?thesis
      by (auto simp: generateAuroraAnswer_def Let_def)
  next
    case False
    with assms Inr have "callHeuristic question = Inr a"
      by (auto simp: generateAuroraAnswer_def Let_def split: if_splits llm_reply.splits option.splits)
    then show ?thesis using callHeuristic_Inr by blast
  qed
qed

lemma answer_shape:
  assumes "generateAuroraAnswer e ctx = Inr a"
  shows "answerText a \<noteq> []"
    and "confidence a = Some 0.92 \<or> confidence a = Some 0.78"
    and "(case usedSearch a of Some b \<Rightarrow> b | None \<Rightarrow> False)
         \<longleftrightarrow> (case sources a of Some s \<Rightarrow> s | None \<Rightarrow> []) \<noteq> []"
  using generate_Inr [OF assms] by (auto simp: heuristic_fields)

lemma tryBlock_Inr:
  assumes "tryBlock e req st = (Inr r, st')"
  shows "(r = badRequest \<and> (\<exists>b. parseBody req = Inr b \<and> bodyMessages b = None))
         \<or> (\<exists>a u ctx. generateAuroraAnswer e ctx = Inr a \<and> r = successResponse a u)"
  using assms
  by (auto simp: tryBlock_def badRequest_def Let_def
      split: sum.splits option.splits jsval.splits prod.splits)

subsection \<open>Valid requests\<close>

lemma getProp_JArr_truthy: "getProp b name = JArr ms \<Longrightarrow> truthy b"
  by (cases b) auto

lemma fallback_fields:
  "fallbackResponse =
     \<lparr>status = 200, headers = [],
      json = AnswerBody \<lparr>bodyText = genericText, bodyConfidence = 0.78, bodyFallback = True,
                         bodySources = [], bodyUsedSearch = False, usedLiveData = None\<rparr>\<rparr>"
  by (simp add: fallbackResponse_def basicHeuristicAnswer_def heuristicText_def)

text \<open>
  Claim C1. A POST whose body (parsed, when it is a string) has a non-empty array as its
  \<open>messages\<close> gets exactly one response: status 200 with an answer whose text is not
  empty and whose confidence lies in \<open>[0, 1]\<close>, in every environment and state, so also
  when every upstream call fails. The witness runs the handler with all upstream calls
  failing.
\<close>

theorem valid_request_answered:
  "httpMethod req = ''POST'' \<and> parseBody req = Inr b \<and> getProp b ''messages'' = JArr ms
   \<and> ms \<noteq> [] \<longrightarrow>
     (\<exists>a. fst (handler e req st) = \<lparr>status = 200, headers = [], json = AnswerBody a\<rparr>
          \<and> bodyText a \<noteq> [] \<and> 0 \<le> bodyConfidence a \<and> bodyConfidence a \<le> 1)"
proof (intro impI)
  assume h: "httpMethod req = ''POST'' \<and> parseBody req = Inr b
    \<and> getProp b ''messages'' = JArr ms \<and> ms \<noteq> []"
  then have msgs: "bodyMessages b = Some ms"
    using getProp_JArr_truthy [of b "''messages''" ms] by (simp add: bodyMessages_def)
  obtain out st' where t: "tryBlock e req st = (out, st')"
    by (cases "tryBlock e req st")
  show "\<exists>a. fst (handler e req st) = \<lparr>status = 200, headers = [], json = AnswerBody a\<rparr>
          \<and> bodyText a \<noteq> [] \<and> 0 \<le> bodyConfidence a \<and> bodyConfidence a \<le> 1"
  proof (cases out)
    case (Inl x)
    then have "fst (handler e req st) = fallbackResponse"
      using h t by (simp add: handler_def)
    then show ?thesis
      by (simp add: fallback_fields texts_nonempty)
  next
    case (Inr r)
    with t tryBlock_Inr [of e req st r st'] h msgs
    obtain a u ctx where g: "generateAuroraAnswer e ctx = Inr a" and r: "r = successResponse a u"
      by auto
    have "fst (handler e req st) = successResponse a u"
      using h t Inr r by (simp add: handler_def)
    then show ?thesis
      using answer_shape(1,2) [OF g] by (auto simp: successResponse_def)
  qed
qed

lemma save_scenario_down:
  "handler env_down req_save state0
     = (\<lparr>status = 200, headers = [],
         json = AnswerBody \<lparr>bodyText = savingsText, bodyConfidence = 0.78, bodyFallback = False,
                            bodySources = [], bodyUsedSearch = False,
                            usedLiveData = Some no_live_data\<rparr>\<rparr>, state0)"
  by code_simp

theorem valid_request_answered_witness:
  "httpMethod req_save = ''POST''
   \<and> parseBody req_save
       = Inr (JObj [(''userId'', JStr ''u1''),
                    (''messages'', JArr [user_message ''How much can I save this month?''])])
   \<and> getProp (JObj [(''userId'', JStr ''u1''),
                    (''messages'', JArr [user_message ''How much can I save this month?''])])
         ''messages'' = JArr [user_message ''How much can I save this month?'']
   \<and> (\<exists>a. fst (handler env_down req_save state0)
             = \<lparr>status = 200, headers = [], json = AnswerBody a\<rparr>
          \<and> bodyText a \<noteq> [] \<and> 0 \<le> bodyConfidence a \<and> bodyConfidence a \<le> 1)
   \<and> fst (handler env_down req_save state0)
       = \<lparr>status = 200, headers = [],
          json = AnswerBody \<lparr>bodyText = savingsText, bodyConfidence = 0.78, bodyFallback = False,
                             bodySources = [], bodyUsedSearch = False,
                             usedLiveData = Some no_live_data\<rparr>\<rparr>"
proof -
  let ?b = "JObj [(''userId'', JStr ''u1''),
                  (''messages'', JArr [user_message ''How much can I save this month?''])]"
  have h1: "httpMethod req_save = ''POST''"
    by (simp add: req_save_def post_def)
  have h2: "parseBody req_save = Inr ?b"
    by (simp add: req_save_def post_def parseBody_def)
  have h3: "getProp ?b ''messages'' = JArr [user_message ''How much can I save this month?'']"
    by simp
  have h4: "[user_message ''How much can I save this month?''] \<noteq> []"
    by simp
  have out: "fst (handler env_down req_save state0)
       = \<lparr>status = 200, headers = [],
          json = AnswerBody \<lparr>bodyText = savingsText, bodyConfidence = 0.78, bodyFallback = False,
                             bodySources = [], bodyUsedSearch = False,
                             usedLiveData = Some no_live_data\<rparr>\<rparr>"
    by (simp add: save_scenario_down)
  show ?thesis
    using valid_request_answered
      [of req_save ?b "[user_message ''How much can I save this month?'']" env_down state0]
      h1 h2 h3 h4 out
    by blast
qed

lemma save_scenario:
  "handler env_offline req_save state0
     = (\<lparr>status = 200, headers = [],
         json = AnswerBody \<lparr>bodyText = savingsText, bodyConfidence = 0.78, bodyFallback = False,
                            bodySources = [], bodyUsedSearch = False,
                            usedLiveData = Some no_live_data\<rparr>\<rparr>, state0)"
  by code_simp

lemma news_scenario:
  "handler env_model req_news state0
     = (\<lparr>status = 200, headers = [],
         json = AnswerBody \<lparr>bodyText = ''Rates moved today.'', bodyConfidence = 0.92,
                            bodyFallback = False, bodySources = found_results,
                            bodyUsedSearch = True, usedLiveData = Some no_live_data\<rparr>\<rparr>,
        state_after_fetch\<lparr>searchCache :=
          [(''latest news on rates'', \<lparr>timestamp = 1200, results = found_results\<rparr>)]\<rparr>)"
  by code_simp

lemma null_message_scenario:
  "tryBlock env_down req_null_message state0 = (Inl TypeError, state0)"
  by code_simp

lemma not_json_scenario:
  "tryBlock env_down req_not_json state0 = (Inl SyntaxError, state0)"
  by code_simp

subsection \<open>The fallback envelope\<close>

text \<open>
  Claim C2, as it holds. When an exception leaves the \<open>try\<close> block, the handler
  answers 200 with the heuristic responder's answer to the empty question (the generic
  paragraph), \<open>fallback: true\<close>, no sources, \<open>usedSearch\<close> false, and the responder's own
  confidence 0.78: \<open>fallback.confidence ?? 0.7\<close> takes 0.7 only when the confidence is
  undefined, and the responder always sets it.
\<close>

theorem failure_gives_fallback:
  "httpMethod req = ''POST'' \<and> tryBlock e req st = (Inl x, st') \<longrightarrow>
     handler e req st
       = (\<lparr>status = 200, headers = [],
           json = AnswerBody
             \<lparr>bodyText = answerText (basicHeuristicAnswer []), bodyConfidence = 0.78,
              bodyFallback = True, bodySources = [], bodyUsedSearch = False,
              usedLiveData = None\<rparr>\<rparr>, st')
     \<and> answerText (basicHeuristicAnswer []) = genericText"
  by (simp add: handler_def fallback_fields basicHeuristicAnswer_def heuristicText_def)

theorem failure_gives_fallback_witness:
  "httpMethod req_null_message = ''POST''
   \<and> tryBlock env_down req_null_message state0 = (Inl TypeError, state0)
   \<and> handler env_down req_null_message state0
       = (\<lparr>status = 200, headers = [],
           json = AnswerBody
             \<lparr>bodyText = genericText, bodyConfidence = 0.78,
              bodyFallback = True, bodySources = [], bodyUsedSearch = False,
              usedLiveData = None\<rparr>\<rparr>, state0)"
proof -
  have h1: "httpMethod req_null_message = ''POST''"
    by (simp add: req_null_message_def post_def)
  show ?thesis
    using failure_gives_fallback [of req_null_message env_down state0 TypeError state0]
      h1 null_message_scenario
    by simp
qed

text \<open>
  Claim C2 as stated fails: a message that is \<open>null\<close> raises a \<open>TypeError\<close> in the
  extraction step, and the fallback carries confidence 0.78, not 0.7.
\<close>

theorem fallback_confidence_not_lowered:
  "tryBlock env_down req_null_message state0 = (Inl TypeError, state0)
   \<and> fst (handler env_down req_null_message state0)
       = \<lparr>status = 200, headers = [],
          json = AnswerBody
            \<lparr>bodyText = genericText, bodyConfidence = 0.78,
             bodyFallback = True, bodySources = [], bodyUsedSearch = False,
             usedLiveData = None\<rparr>\<rparr>
   \<and> (0.78 :: real) \<noteq> 0.7"
  by code_simp

subsection \<open>Invalid bodies\<close>





subsection \<open>Sources and the search flag\<close>

text \<open>
  Claim C4. In every answer envelope the handler sends (success or fallback, for any
  request, environment and state), \<open>usedSearch\<close> holds exactly when \<open>sources\<close> is not
  empty.
\<close>

theorem usedSearch_iff_sources:
  "json (fst (handler e req st)) = AnswerBody a \<longrightarrow> (bodyUsedSearch a \<longleftrightarrow> bodySources a \<noteq> [])"
proof (intro impI)
  assume h: "json (fst (handler e req st)) = AnswerBody a"
  obtain out st' where t: "tryBlock e req st = (out, st')"
    by (cases "tryBlock e req st")
  show "bodyUsedSearch a \<longleftrightarrow> bodySources a \<noteq> []"
  proof (cases "httpMethod req = ''POST''")
    case False
    with h show ?thesis by (simp add: handler_def)
  next
    case post: True
    show ?thesis
    proof (cases out)
      case (Inl x)
      with h t post show ?thesis
        by (auto simp: handler_def fallback_fields)
    next
      case (Inr r)
      with h t post have j: "json r = AnswerBody a"
        by (simp add: handler_def)
      with tryBlock_Inr [of e req st r st'] t Inr
      obtain ans u ctx where g: "generateAuroraAnswer e ctx = Inr ans"
        and r: "r = successResponse ans u"
        by (auto simp: badRequest_def)
      from j r have "bodyUsedSearch a = (case usedSearch ans of Some b \<Rightarrow> b | None \<Rightarrow> False)"
        and "bodySources a = (case sources ans of Some s \<Rightarrow> s | None \<Rightarrow> [])"
        by (auto simp: successResponse_def)
      then show ?thesis
        using answer_shape(3) [OF g] by simp
    qed
  qed
qed

theorem usedSearch_iff_sources_witness:
  "json (fst (handler env_model req_news state0))
     = AnswerBody \<lparr>bodyText = ''Rates moved today.'', bodyConfidence = 0.92,
                   bodyFallback = False, bodySources = found_results,
                   bodyUsedSearch = True, usedLiveData = Some no_live_data\<rparr>
   \<and> found_results \<noteq> []
   \<and> json (fst (handler env_offline req_save state0))
     = AnswerBody \<lparr>bodyText = savingsText, bodyConfidence = 0.78, bodyFallback = False,
                   bodySources = [], bodyUsedSearch = False,
                   usedLiveData = Some no_live_data\<rparr>"
proof -
  let ?a = "\<lparr>bodyText = ''Rates moved today.'', bodyConfidence = 0.92,
                   bodyFallback = False, bodySources = found_results,
                   bodyUsedSearch = True, usedLiveData = Some no_live_data\<rparr>"
  have h: "json (fst (handler env_model req_news state0)) = AnswerBody ?a"
    by (simp add: news_scenario)
  have s: "json (fst (handler env_offline req_save state0))
     = AnswerBody \<lparr>bodyText = savingsText, bodyConfidence = 0.78, bodyFallback = False,
                   bodySources = [], bodyUsedSearch = False,
                   usedLiveData = Some no_live_data\<rparr>"
    by (simp add: save_scenario)
  show ?thesis
    using usedSearch_iff_sources [of env_model req_news state0 ?a] h s
    by simp
qed

subsection \<open>Without a language-model key\<close>

lemma filterUsers_snoc:
  "filterUsers (ms @ [m]) =
     (case filterUsers ms of
        Inl x \<Rightarrow> Inl x
      | Inr us \<Rightarrow>
          (case readProp m ''role'' of
             Inl x \<Rightarrow> Inl x
           | Inr r \<Rightarrow> Inr (if r = JStr ''user'' then us @ [m] else us)))"
  by (induction ms) (auto simp: readProp_def split: sum.splits)

lemma findUser_rev: "filterUsers ms = Inr us \<Longrightarrow> findUser (rev ms) = Inr (lastElem us)"
proof (induction ms arbitrary: us rule: rev_induct)
  case Nil
  then show ?case by (simp add: lastElem_def)
next
  case (snoc m ms)
  from snoc.prems obtain vs r where vs: "filterUsers ms = Inr vs"
    and r: "readProp m ''role'' = Inr r"
    and us: "us = (if r = JStr ''user'' then vs @ [m] else vs)"
    by (auto simp: filterUsers_snoc split: sum.splits)
  show ?case
  proof (cases "r = JStr ''user''")
    case True
    with r us show ?thesis by (simp add: lastElem_def)
  next
    case False
    with r us snoc.IH [OF vs] show ?thesis by simp
  qed
qed

lemma effective_of_empty_question:
  assumes "extractQuestion msgs = Inr (JStr [])"
  shows "(\<exists>x. effectiveQuestion \<lparr>ctxQuestion = [], ctxMessages = msgs, ctxUpstream = u,
                                  ctxWebResults = ws\<rparr> = Inl x)
         \<or> effectiveQuestion \<lparr>ctxQuestion = [], ctxMessages = msgs, ctxUpstream = u,
                               ctxWebResults = ws\<rparr> = Inr (JStr defaultQuestion)"
proof (cases "filterUsers msgs")
  case (Inl x)
  then show ?thesis by (simp add: effectiveQuestion_def)
next
  case (Inr us)
  let ?t = "optProp (lastElem us) ''text''"
  have "orElse ?t (orElse (optProp (lastElem msgs) ''text'') (JStr [])) = JStr []"
    using assms findUser_rev [OF Inr] by (simp add: extractQuestion_def)
  then have "\<not> truthy ?t"
    by (cases ?t) (auto simp: orElse_def)
  then show ?thesis
    using Inr by (simp add: effectiveQuestion_def Let_def)
qed

lemma default_is_generic: "heuristicText (toLowerCase defaultQuestion) = heuristicText (toLowerCase [])"
  by code_simp

lemma heuristic_of_default:
  "basicHeuristicAnswer defaultQuestion = basicHeuristicAnswer []"
  by (simp add: basicHeuristicAnswer_def default_is_generic)

lemma callHeuristic_JStr: "callHeuristic (JStr q) = Inr (basicHeuristicAnswer q)"
  by (simp add: callHeuristic_def)

lemma generate_without_key:
  "\<not> isSet (OPENAI_API_KEY e) \<Longrightarrow> effectiveQuestion ctx = Inr (JStr q) \<Longrightarrow>
   generateAuroraAnswer e ctx = Inr (basicHeuristicAnswer q)"
  by (simp add: generateAuroraAnswer_def callHeuristic_JStr)

lemma budget_paragraph:
  assumes "q = p @ s @ r" and "toLowerCase s = ''budget''"
  shows "answerText (basicHeuristicAnswer q) = budgetText"
proof -
  have "set (toLowerCase s) \<subseteq> set plainLetters"
    unfolding assms(2) by (simp add: plainLetters_def)
  then have "includesStr (toLowerCase q) ''budget''"
    unfolding assms(1) assms(2) [symmetric] by (rule includesStr_toLowerCase)
  then show ?thesis
    by (simp add: basicHeuristicAnswer_def heuristicText_def)
qed

lemma generic_paragraph:
  assumes "\<not> list_ex (\<lambda>k. includesStr (toLowerCase q) k) heuristicKeywords"
  shows "answerText (basicHeuristicAnswer q) = genericText"
  using assms by (simp add: basicHeuristicAnswer_def heuristicText_def heuristicKeywords_def)

lemma handler_without_key:
  assumes key: "\<not> isSet (OPENAI_API_KEY e)" and post: "httpMethod req = ''POST''"
    and b: "parseBody req = Inr b" and msgs: "bodyMessages b = Some msgs"
    and q: "extractQuestion msgs = Inr (JStr q)"
  shows "\<exists>a. fst (handler e req st) = \<lparr>status = 200, headers = [], json = AnswerBody a\<rparr>
            \<and> bodyText a = answerText (basicHeuristicAnswer q) \<and> bodyConfidence a = 0.78
            \<and> bodySources a = [] \<and> \<not> bodyUsedSearch a"
proof -
  obtain ws st' where w: "getWebResultsForQuestion e q st = (ws, st')"
    by (cases "getWebResultsForQuestion e q st")
  define u where "u = upstream e (orElse (getProp b ''userId'') (JStr ''anonymous'')) q"
  define ctx where "ctx = \<lparr>ctxQuestion = q, ctxMessages = msgs, ctxUpstream = u, ctxWebResults = ws\<rparr>"
  have t: "tryBlock e req st =
             (case generateAuroraAnswer e ctx of
                Inl x \<Rightarrow> (Inl x, st')
              | Inr answer \<Rightarrow> (Inr (successResponse answer u), st'))"
    using b msgs q w unfolding u_def ctx_def by (simp add: tryBlock_def Let_def)
  have "(\<exists>x. generateAuroraAnswer e ctx = Inl x)
        \<or> generateAuroraAnswer e ctx = Inr (basicHeuristicAnswer q)"
  proof (cases "q = []")
    case False
    then have "effectiveQuestion ctx = Inr (JStr q)"
      by (simp add: effectiveQuestion_def ctx_def)
    then show ?thesis
      using generate_without_key [OF key] by simp
  next
    case True
    with q effective_of_empty_question [of msgs u ws]
    have "(\<exists>x. effectiveQuestion ctx = Inl x) \<or> effectiveQuestion ctx = Inr (JStr defaultQuestion)"
      by (simp add: ctx_def)
    then show ?thesis
    proof
      assume "\<exists>x. effectiveQuestion ctx = Inl x"
      then show ?thesis by (auto simp: generateAuroraAnswer_def)
    next
      assume "effectiveQuestion ctx = Inr (JStr defaultQuestion)"
      then have "generateAuroraAnswer e ctx = Inr (basicHeuristicAnswer defaultQuestion)"
        by (rule generate_without_key [OF key])
      then show ?thesis
        using True by (simp add: heuristic_of_default)
    qed
  qed
  then show ?thesis
  proof
    assume "\<exists>x. generateAuroraAnswer e ctx = Inl x"
    then have "fst (handler e req st) = fallbackResponse"
      using post t by (auto simp: handler_def)
    moreover have "answerText (basicHeuristicAnswer q) = genericText"
      using t \<open>\<exists>x. generateAuroraAnswer e ctx = Inl x\<close> key
      by (cases "q = []")
         (auto simp: generateAuroraAnswer_def effectiveQuestion_def ctx_def callHeuristic_JStr
            basicHeuristicAnswer_def heuristicText_def)
    ultimately show ?thesis
      by (simp add: fallback_fields)
  next
    assume "generateAuroraAnswer e ctx = Inr (basicHeuristicAnswer q)"
    then have "fst (handler e req st) = successResponse (basicHeuristicAnswer q) u"
      using post t by (simp add: handler_def)
    then show ?thesis
      by (simp add: successResponse_def heuristic_fields)
  qed
qed

text \<open>
  Claim C6. Without a language-model key, \<open>generateAuroraAnswer\<close> returns the heuristic
  responder's answer to the question; through the handler, a POST whose question is
  the string \<open>q\<close> is answered 200 with the text of \<open>basicHeuristicAnswer q\<close>, confidence
  0.78, no sources and \<open>usedSearch\<close> false. That text is the budget paragraph when \<open>q\<close>
  contains \<open>budget\<close> in any mix of cases, and the generic paragraph when \<open>q\<close> in lower
  case contains none of the responder's keywords; the responder's answer always has
  confidence 0.78 and neither sources nor \<open>usedSearch\<close>.
\<close>

theorem no_key_heuristic_answer:
  "(\<not> isSet (OPENAI_API_KEY e) \<and> effectiveQuestion ctx = Inr (JStr q) \<longrightarrow>
      generateAuroraAnswer e ctx = Inr (basicHeuristicAnswer q))
   \<and> (\<not> isSet (OPENAI_API_KEY e) \<and> httpMethod req = ''POST'' \<and> parseBody req = Inr b
       \<and> bodyMessages b = Some msgs \<and> extractQuestion msgs = Inr (JStr q) \<longrightarrow>
      (\<exists>a. fst (handler e req st) = \<lparr>status = 200, headers = [], json = AnswerBody a\<rparr>
           \<and> bodyText a = answerText (basicHeuristicAnswer q) \<and> bodyConfidence a = 0.78
           \<and> bodySources a = [] \<and> \<not> bodyUsedSearch a))
   \<and> (q = p @ s @ r \<and> toLowerCase s = ''budget'' \<longrightarrow>
      answerText (basicHeuristicAnswer q) = budgetText)
   \<and> (\<not> list_ex (\<lambda>k. includesStr (toLowerCase q) k) heuristicKeywords \<longrightarrow>
      answerText (basicHeuristicAnswer q) = genericText)
   \<and> confidence (basicHeuristicAnswer q) = Some 0.78
   \<and> sources (basicHeuristicAnswer q) = None
   \<and> usedSearch (basicHeuristicAnswer q) = None"
  using generate_without_key [of e ctx q] handler_without_key [of e req b msgs q st]
    budget_paragraph [of q p s r] generic_paragraph [of q]
  by (simp add: heuristic_fields)

text \<open>
  The lower case of the Kelvin sign is \<open>k\<close>, so the question of \<open>req_kelvin\<close> gets the
  investing paragraph; a reply of white space only is trimmed to nothing, and the
  heuristic responder answers.
\<close>

lemma kelvin_scenario:
  "fst (handler env_offline req_kelvin state0)
     = \<lparr>status = 200, headers = [],
        json = AnswerBody \<lparr>bodyText = investText, bodyConfidence = 0.78, bodyFallback = False,
                           bodySources = [], bodyUsedSearch = False,
                           usedLiveData = Some no_live_data\<rparr>\<rparr>"
  by code_simp

lemma blank_reply_scenario:
  "fst (handler env_blank_reply req_save state0)
     = \<lparr>status = 200, headers = [],
        json = AnswerBody \<lparr>bodyText = savingsText, bodyConfidence = 0.78, bodyFallback = False,
                           bodySources = [], bodyUsedSearch = False,
                           usedLiveData = Some no_live_data\<rparr>\<rparr>"
  by code_simp

lemma budget_scenario:
  "fst (handler env_offline req_budget state0)
     = \<lparr>status = 200, headers = [],
        json = AnswerBody \<lparr>bodyText = budgetText, bodyConfidence = 0.78, bodyFallback = False,
                           bodySources = [], bodyUsedSearch = False,
                           usedLiveData = Some no_live_data\<rparr>\<rparr>"
  by code_simp

theorem no_key_heuristic_answer_witness:
  "\<not> isSet (OPENAI_API_KEY env_offline)
   \<and> effectiveQuestion ctx_budget = Inr (JStr ''Help me BUDGET better'')
   \<and> generateAuroraAnswer env_offline ctx_budget
       = Inr (basicHeuristicAnswer ''Help me BUDGET better'')
   \<and> httpMethod req_budget = ''POST''
   \<and> parseBody req_budget
       = Inr (JObj [(''messages'', JArr [user_message ''Help me BUDGET better''])])
   \<and> bodyMessages (JObj [(''messages'', JArr [user_message ''Help me BUDGET better''])])
       = Some [user_message ''Help me BUDGET better'']
   \<and> extractQuestion [user_message ''Help me BUDGET better'']
       = Inr (JStr ''Help me BUDGET better'')
   \<and> ''Help me BUDGET better'' = ''Help me '' @ ''BUDGET'' @ '' better''
   \<and> toLowerCase ''BUDGET'' = ''budget''
   \<and> answerText (basicHeuristicAnswer ''Help me BUDGET better'') = budgetText
   \<and> fst (handler env_offline req_budget state0)
       = \<lparr>status = 200, headers = [],
          json = AnswerBody \<lparr>bodyText = budgetText, bodyConfidence = 0.78, bodyFallback = False,
                             bodySources = [], bodyUsedSearch = False,
                             usedLiveData = Some no_live_data\<rparr>\<rparr>
   \<and> \<not> list_ex (\<lambda>k. includesStr (toLowerCase ''Where do I stand?'') k) heuristicKeywords
   \<and> answerText (basicHeuristicAnswer ''Where do I stand?'') = genericText"
proof -
  let ?q = "''Help me BUDGET better''"
  let ?msgs = "[user_message ?q]"
  let ?b = "JObj [(''messages'', JArr ?msgs)]"
  have h1: "\<not> isSet (OPENAI_API_KEY env_offline)"
    by (simp add: env_offline_def isSet_def)
  have h2: "effectiveQuestion ctx_budget = Inr (JStr ?q)"
    by (simp add: effectiveQuestion_def ctx_budget_def)
  have h3: "httpMethod req_budget = ''POST''" and h4: "parseBody req_budget = Inr ?b"
    by (simp_all add: req_budget_def post_def parseBody_def)
  have h5: "bodyMessages ?b = Some ?msgs"
    by (simp add: bodyMessages_def)
  have h6: "extractQuestion ?msgs = Inr (JStr ?q)"
    by code_simp
  have h7: "?q = ''Help me '' @ ''BUDGET'' @ '' better''"
    by simp
  have h8: "toLowerCase ''BUDGET'' = ''budget''"
    by (simp add: toLowerChar_def)
  have h9: "\<not> list_ex (\<lambda>k. includesStr (toLowerCase ''Where do I stand?'') k) heuristicKeywords"
    by code_simp
  have a: "generateAuroraAnswer env_offline ctx_budget = Inr (basicHeuristicAnswer ?q)"
    and b: "answerText (basicHeuristicAnswer ?q) = budgetText"
    using no_key_heuristic_answer
      [of env_offline ctx_budget ?q req_budget ?b ?msgs state0 "''Help me ''" "''BUDGET''"
          "'' better''"]
      h1 h2 h7 h8
    by blast+
  have c: "answerText (basicHeuristicAnswer ''Where do I stand?'') = genericText"
    using no_key_heuristic_answer
      [of env_offline ctx_budget "''Where do I stand?''" req_budget ?b ?msgs state0
          "''Help me ''" "''BUDGET''" "'' better''"]
      h9
    by blast
  show ?thesis
    using h1 h2 h3 h4 h5 h6 h7 h8 h9 a b c budget_scenario by blast
qed

end
